(* ===== verification/Prelude.thy ===== *)
theory Prelude
  imports Main
begin

text \<open>
  Shared vocabulary of the development.  Sequence numbers of the disruptor are
  Python integers that start at \<open>-1\<close>, so they are \<^typ>\<open>int\<close>; positions in a
  list of published items are \<^typ>\<open>nat\<close>.  This theory names those types, declares
  the collections of facts the component theories fill, and proves the generic
  facts on lists and Python-style slicing that several components use.
\<close>

section \<open>Types and fact collections\<close>

type_synonym seqno = int

named_theorems inv_simps "unfolding rules of the component invariants"
named_theorems op_simps "characteristic equations of the modelled operations"

section \<open>What the example consumers meet in the outside world\<close>

text \<open>
  The consumers of the example scripts turn a batch into a polars DataFrame
  (\<open>pl.from_dicts\<close>, then \<open>unnest\<close> of four columns) and write it as a Parquet
  file.  Either can raise.  Which calls fail is not decided by the scripts, so the
  model takes it as an input: an \<open>io\<close> answer for each call.  A batch with no
  rows always fails the conversion, because the frame it gives has no column to
  unnest.  \<open>exn\<close> names the exceptions the consumers raise or catch.
\<close>

datatype io = Io_Ok | Io_Frame_Error | Io_Write_Error

datatype exn = Frame_Error | Write_Error | Simulated_Error

section \<open>Python slicing\<close>

text \<open>
  Python's \<open>xs[:n]\<close> and \<open>xs[n:]\<close> for an integer \<open>n\<close>: a negative bound counts
  from the end of the list and is clamped at 0.  Both consumers of the examples
  slice their buffer with these operations, and their batch size is an
  unchecked Python integer, so the negative case is part of the model.
\<close>

definition py_bound :: "int \<Rightarrow> 'a list \<Rightarrow> nat" where
  "py_bound n xs = (if 0 \<le> n then nat n else length xs - nat (- n))"

definition py_take :: "int \<Rightarrow> 'a list \<Rightarrow> 'a list" where
  "py_take n xs = take (py_bound n xs) xs"

definition py_drop :: "int \<Rightarrow> 'a list \<Rightarrow> 'a list" where
  "py_drop n xs = drop (py_bound n xs) xs"

lemma py_take_drop [simp]: "py_take n xs @ py_drop n xs = xs"
  by (simp add: py_take_def py_drop_def)

lemma py_take_nonneg [simp]: "0 \<le> n \<Longrightarrow> py_take n xs = take (nat n) xs"
  by (simp add: py_take_def py_bound_def)

lemma py_drop_nonneg [simp]: "0 \<le> n \<Longrightarrow> py_drop n xs = drop (nat n) xs"
  by (simp add: py_drop_def py_bound_def)

lemma length_py_drop_less:
  "0 < n \<Longrightarrow> n \<le> int (length xs) \<Longrightarrow> length (py_drop n xs) < length xs"
  by simp

section \<open>Integer ranges and option lists\<close>

lemma upto_as_map: "[a..a + int n - 1] = map (\<lambda>j. a + int j) [0..<n]"
proof (induction n)
  case 0
  then show ?case by simp
next
  case (Suc n)
  have "[a..a + int (Suc n) - 1] = [a..a + int n - 1] @ [a + int n]"
    using upto_rec2 [of a "a + int n"] by simp
  with Suc.IH show ?case by simp
qed

lemma those_map_Some [simp]: "those (map Some xs) = Some xs"
  by (induction xs) simp_all

lemma those_map_cong:
  "(\<And>j. j < length xs \<Longrightarrow> f (xs ! j) = Some (ys ! j)) \<Longrightarrow> length xs = length ys \<Longrightarrow>
   those (map f xs) = Some ys"
proof (induction xs arbitrary: ys)
  case Nil
  then show ?case by simp
next
  case (Cons x xs)
  then obtain y ys' where ys: "ys = y # ys'" by (cases ys) auto
  with Cons.prems have "f x = Some y" by fastforce
  moreover have "those (map f xs) = Some ys'"
    using Cons.prems ys by (intro Cons.IH) fastforce+
  ultimately show ?case using ys by simp
qed

section \<open>Lists of published items\<close>

text \<open>
  A consumer that has processed up to cursor \<open>c\<close> has seen the prefix of length
  \<open>c + 1\<close> of the published items.  The following facts move such prefixes along
  when a cursor advances.
\<close>

definition upto_cursor :: "int \<Rightarrow> 'a list \<Rightarrow> 'a list" where
  "upto_cursor c xs = take (nat (c + 1)) xs"

lemma upto_cursor_minus_one [simp]: "upto_cursor (-1) xs = []"
  by (simp add: upto_cursor_def)

lemma upto_cursor_last [simp]:
  "upto_cursor (int (length xs) - 1) xs = xs"
  by (simp add: upto_cursor_def)

lemma upto_cursor_append_prefix:
  "c < int (length xs) \<Longrightarrow> upto_cursor c (xs @ ys) = upto_cursor c xs"
  by (simp add: upto_cursor_def)

lemma upto_cursor_advance:
  assumes "-1 \<le> c" "c \<le> d" "d < int (length xs)"
  shows "upto_cursor d xs =
         upto_cursor c xs @ take (nat (d - c)) (drop (nat (c + 1)) xs)"
proof -
  have "nat (d + 1) = nat (c + 1) + nat (d - c)" using assms by simp
  then show ?thesis by (simp add: upto_cursor_def take_add)
qed

section \<open>Cutting a buffer into batches\<close>

text \<open>
  Both batch consumers cut their buffer into full batches of \<open>n\<close> items with
  a \<open>while len(buffer) >= n\<close> loop.  \<open>full_chunks n xs\<close> is the list of the
  batches that loop takes, \<open>chunks_rest n xs\<close> what stays in the buffer; the
  loop theorems of the consumers are stated with them.
\<close>

fun full_chunks :: "nat \<Rightarrow> 'a list \<Rightarrow> 'a list list" where
  "full_chunks n xs =
     (if n = 0 \<or> length xs < n then [] else take n xs # full_chunks n (drop n xs))"

declare full_chunks.simps [simp del]

definition chunks_rest :: "nat \<Rightarrow> 'a list \<Rightarrow> 'a list" where
  "chunks_rest n xs = drop (n * length (full_chunks n xs)) xs"

lemma full_chunks_step:
  assumes "0 < n" "n \<le> length xs"
  shows "full_chunks n xs = take n xs # full_chunks n (drop n xs) \<and>
         chunks_rest n xs = chunks_rest n (drop n xs)"
proof -
  have fc: "full_chunks n xs = take n xs # full_chunks n (drop n xs)"
    using assms by (subst full_chunks.simps) simp
  have "drop (n * length (full_chunks n xs)) xs = drop (n * length (full_chunks n (drop n xs))) (drop n xs)"
    unfolding fc by (simp add: drop_drop add.commute)
  then show ?thesis using fc by (simp add: chunks_rest_def)
qed

lemma full_chunks_stop:
  assumes "length xs < n"
  shows "full_chunks n xs = [] \<and> chunks_rest n xs = xs"
proof -
  have "full_chunks n xs = []" using assms by (subst full_chunks.simps) simp
  then show ?thesis by (simp add: chunks_rest_def)
qed

lemma full_chunks_concat: "concat (full_chunks n xs) @ chunks_rest n xs = xs"
proof (induction n xs rule: full_chunks.induct)
  case (1 n xs)
  show ?case
  proof (cases "n = 0 \<or> length xs < n")
    case True
    then have "full_chunks n xs = []" by (subst full_chunks.simps) simp
    then show ?thesis by (simp add: chunks_rest_def)
  next
    case False
    then show ?thesis using "1.IH" full_chunks_step [of n xs] by simp
  qed
qed

lemma full_chunks_length: "b \<in> set (full_chunks n xs) \<Longrightarrow> length b = n"
proof (induction n xs rule: full_chunks.induct)
  case (1 n xs)
  then show ?case
    by (cases "n = 0 \<or> length xs < n") (subst (asm) full_chunks.simps, auto)+
qed

lemma chunks_rest_less: "0 < n \<Longrightarrow> length (chunks_rest n xs) < n"
proof (induction n xs rule: full_chunks.induct)
  case (1 n xs)
  then show ?case
    by (cases "length xs < n") (simp_all add: full_chunks_stop full_chunks_step)
qed

end
