(* ===== verification/RingBuffer.thy ===== *)
theory RingBuffer
  imports Prelude
begin

text \<open>
  The Ring Buffer of the disruptor (spec section 4.1): a preallocated array of
  \<open>capacity\<close> slots, addressed by a sequence number modulo the capacity.  The
  buffer does no synchronisation and no bounds check beyond the modulo.  A slot
  that was never written holds \<^term>\<open>None\<close>.  The abstraction relation
  \<open>rb_holds\<close> says which items of the unbounded list of published items the
  ring still holds: the last \<open>capacity\<close> ones.  \<open>rb_holds_write_all\<close> and
  \<open>rb_read_range_holds\<close> are the refinement of that list by the ring.
\<close>

section \<open>State and operations\<close>

record 'a ring =
  capacity :: nat
  slots :: "'a option list"

definition rb_new :: "nat \<Rightarrow> 'a ring" where
  "rb_new k = \<lparr>capacity = k, slots = replicate k None\<rparr>"

definition rb_index :: "'a ring \<Rightarrow> seqno \<Rightarrow> nat" where
  "rb_index r s = nat (s mod int (capacity r))"

definition rb_write :: "'a ring \<Rightarrow> seqno \<Rightarrow> 'a \<Rightarrow> 'a ring" where
  "rb_write r s x = r\<lparr>slots := (slots r)[rb_index r s := Some x]\<rparr>"

definition rb_read :: "'a ring \<Rightarrow> seqno \<Rightarrow> 'a option" where
  "rb_read r s =
     (let i = rb_index r s in if i < length (slots r) then slots r ! i else None)"

text \<open>Writing a claimed range: item \<open>j\<close> of the list goes to sequence \<open>s + j\<close>.\<close>

fun rb_write_all :: "'a ring \<Rightarrow> seqno \<Rightarrow> 'a list \<Rightarrow> 'a ring" where
  "rb_write_all r s [] = r"
| "rb_write_all r s (x # xs) = rb_write_all (rb_write r s x) (s + 1) xs"

text \<open>Reading the inclusive range \<open>lo \<dots> hi\<close>; \<^term>\<open>None\<close> if a slot is empty.\<close>

definition rb_read_range :: "'a ring \<Rightarrow> seqno \<Rightarrow> seqno \<Rightarrow> 'a list option" where
  "rb_read_range r lo hi = those (map (rb_read r) [lo..hi])"

section \<open>Well-formedness and the abstraction relation\<close>

definition rb_wf :: "'a ring \<Rightarrow> bool" where
  "rb_wf r \<longleftrightarrow> 0 < capacity r \<and> length (slots r) = capacity r"

definition rb_holds :: "'a ring \<Rightarrow> 'a list \<Rightarrow> bool" where
  "rb_holds r xs \<longleftrightarrow>
     (\<forall>t < length xs. length xs \<le> t + capacity r \<longrightarrow> rb_read r (int t) = Some (xs ! t))"

section \<open>Lemmas\<close>

lemma rb_wf_new: "0 < k \<Longrightarrow> rb_wf (rb_new k)"
  by (simp add: rb_wf_def rb_new_def)

lemma rb_holds_nil [simp]: "rb_holds r []"
  by (simp add: rb_holds_def)

lemma capacity_write [simp]: "capacity (rb_write r s x) = capacity r"
  by (simp add: rb_write_def)

lemma capacity_write_all [simp]: "capacity (rb_write_all r s xs) = capacity r"
  by (induction xs arbitrary: r s) simp_all

lemma rb_wf_write: "rb_wf r \<Longrightarrow> rb_wf (rb_write r s x)"
  by (simp add: rb_wf_def rb_write_def)

lemma rb_wf_write_all: "rb_wf r \<Longrightarrow> rb_wf (rb_write_all r s xs)"
  by (induction xs arbitrary: r s) (simp_all add: rb_wf_write)

lemma rb_index_slots [simp]: "rb_index (r\<lparr>slots := xs\<rparr>) s = rb_index r s"
  by (simp add: rb_index_def)

lemma rb_index_less: "rb_wf r \<Longrightarrow> rb_index r s < length (slots r)"
  by (simp add: rb_wf_def rb_index_def nat_less_iff)

text \<open>A read after a write sees the write exactly at the sequences that share its slot.\<close>

lemma rb_read_write:
  assumes "rb_wf r"
  shows "rb_read (rb_write r s x) t =
         (if s mod int (capacity r) = t mod int (capacity r) then Some x else rb_read r t)"
proof -
  have pos: "0 < capacity r" using assms by (simp add: rb_wf_def)
  have "rb_index r s = rb_index r t \<longleftrightarrow> s mod int (capacity r) = t mod int (capacity r)"
    using pos by (auto simp add: rb_index_def nat_eq_iff2)
  moreover have "rb_index r t = rb_index r s \<longleftrightarrow> s mod int (capacity r) = t mod int (capacity r)"
    using pos by (auto simp add: rb_index_def nat_eq_iff2)
  ultimately show ?thesis
    using assms rb_index_less [OF assms]
    by (auto simp: rb_read_def rb_write_def Let_def)
qed

text \<open>Two sequences closer than the capacity use different slots.\<close>

lemma mod_distinct_window:
  assumes "0 < k" "t < u" "u < t + k"
  shows "(u::int) mod k \<noteq> t mod k"
proof
  assume "u mod k = t mod k"
  then have "k dvd (u - t)" by (simp add: mod_eq_dvd_iff)
  then show False using assms zdvd_imp_le by fastforce
qed

lemma rb_holds_snoc:
  assumes wf: "rb_wf r" and h: "rb_holds r xs"
  shows "rb_holds (rb_write r (int (length xs)) x) (xs @ [x])"
  unfolding rb_holds_def
proof (intro allI impI)
  fix t assume t: "t < length (xs @ [x])" "length (xs @ [x]) \<le> t + capacity (rb_write r (int (length xs)) x)"
  have pos: "0 < capacity r" using wf by (simp add: rb_wf_def)
  show "rb_read (rb_write r (int (length xs)) x) (int t) = Some ((xs @ [x]) ! t)"
  proof (cases "t = length xs")
    case True
    then show ?thesis using wf by (simp add: rb_read_write)
  next
    case False
    with t have lt: "t < length xs" and win: "length xs < t + capacity r" by auto
    then have "int (length xs) mod int (capacity r) \<noteq> int t mod int (capacity r)"
      using pos by (intro mod_distinct_window) auto
    moreover have "rb_read r (int t) = Some (xs ! t)"
      using h lt win by (simp add: rb_holds_def)
    ultimately show ?thesis using wf lt by (simp add: rb_read_write nth_append)
  qed
qed

theorem rb_holds_write_all:
  "rb_wf r \<Longrightarrow> rb_holds r xs \<Longrightarrow> rb_holds (rb_write_all r (int (length xs)) ys) (xs @ ys)"
proof (induction ys arbitrary: r xs)
  case Nil
  then show ?case by simp
next
  case (Cons y ys)
  have wf': "rb_wf (rb_write r (int (length xs)) y)"
    using Cons.prems by (simp add: rb_wf_write)
  have "rb_holds (rb_write r (int (length xs)) y) (xs @ [y])"
    using Cons.prems by (rule rb_holds_snoc)
  with wf' have "rb_holds (rb_write_all (rb_write r (int (length xs)) y) (int (length (xs @ [y]))) ys)
                     ((xs @ [y]) @ ys)"
    by (rule Cons.IH)
  then show ?case by (simp add: add.commute)
qed

text \<open>
  Reading a range of sequences that lies inside the window the ring still holds
  gives exactly the published items of that range.
\<close>

theorem rb_read_range_holds:
  assumes h: "rb_holds r xs" and fit: "lo + n \<le> length xs"
    and win: "length xs \<le> lo + capacity r"
  shows "rb_read_range r (int lo) (int lo + int n - 1) = Some (take n (drop lo xs))"
proof -
  have "those (map (rb_read r) (map (\<lambda>j. int lo + int j) [0..<n])) = Some (take n (drop lo xs))"
  proof (rule those_map_cong)
    fix j assume j: "j < length (map (\<lambda>j. int lo + int j) [0..<n])"
    then have "lo + j < length xs" "length xs \<le> lo + j + capacity r" using fit win by auto
    then have "rb_read r (int (lo + j)) = Some (xs ! (lo + j))"
      using h unfolding rb_holds_def by blast
    then show "rb_read r (map (\<lambda>j. int lo + int j) [0..<n] ! j) = Some (take n (drop lo xs) ! j)"
      using j fit by (simp add: add.commute)
  qed (use fit in simp)
  then show ?thesis by (simp add: rb_read_range_def upto_as_map)
qed

end
