(* ===== verification/Cursors.thy ===== *)
theory Cursors
  imports Prelude
begin

text \<open>
  The Cursor Set and the producer Barrier (spec sections 4.2 and 4.3): the
  producer cursor (highest published sequence) and one cursor per registered
  consumer (highest sequence it has finished), all starting at \<open>-1\<close>.
  \<open>claim\<close> reserves a contiguous range, \<open>publish\<close> makes it visible,
  \<open>consumer_advance\<close> moves one consumer, \<open>gating\<close> is the minimum consumer
  cursor.  \<open>can_claim\<close> is the barrier test of section 4.3, written with the
  minimum as the spec does; \<open>can_claim_all\<close> shows it is the per-sequence test
  "every claimed \<open>s\<close> has \<open>s - capacity < gating\<close>".  With no consumer
  registered the spec's minimum is undefined; the model does not gate the
  producer then.
\<close>

section \<open>State and operations\<close>

record cursors =
  producer :: seqno
  consumer_cursors :: "seqno list"

definition cs_new :: cursors where
  "cs_new = \<lparr>producer = -1, consumer_cursors = []\<rparr>"

definition cs_add_consumer :: "cursors \<Rightarrow> cursors" where
  "cs_add_consumer c = c\<lparr>consumer_cursors := consumer_cursors c @ [-1]\<rparr>"

definition claim :: "nat \<Rightarrow> cursors \<Rightarrow> seqno \<times> seqno" where
  "claim n c = (producer c + 1, producer c + int n)"

definition publish :: "seqno \<Rightarrow> cursors \<Rightarrow> cursors" where
  "publish hi c = c\<lparr>producer := hi\<rparr>"

definition consumer_advance :: "nat \<Rightarrow> seqno \<Rightarrow> cursors \<Rightarrow> cursors" where
  "consumer_advance i k c = c\<lparr>consumer_cursors := (consumer_cursors c)[i := k]\<rparr>"

definition gating :: "cursors \<Rightarrow> seqno option" where
  "gating c = (if consumer_cursors c = [] then None else Some (min_list (consumer_cursors c)))"

definition can_claim :: "nat \<Rightarrow> nat \<Rightarrow> cursors \<Rightarrow> bool" where
  "can_claim k n c =
     (case gating c of None \<Rightarrow> True | Some g \<Rightarrow> snd (claim n c) - int k < g)"

section \<open>Invariant\<close>

text \<open>Spec invariant 1: every consumer cursor lies between \<open>-1\<close> and the producer cursor.\<close>

definition cs_inv :: "cursors \<Rightarrow> bool" where
  "cs_inv c \<longleftrightarrow> -1 \<le> producer c \<and> (\<forall>x \<in> set (consumer_cursors c). -1 \<le> x \<and> x \<le> producer c)"

section \<open>Lemmas\<close>

lemma min_list_le_iff:
  "xs \<noteq> [] \<Longrightarrow> (a < min_list xs) \<longleftrightarrow> (\<forall>x \<in> set xs. (a::int) < x)"
  by (simp add: min_list_Min)

theorem can_claim_all:
  assumes "0 < n"
  shows "can_claim k n c \<longleftrightarrow>
         (\<forall>s \<in> set [fst (claim n c)..snd (claim n c)]. \<forall>x \<in> set (consumer_cursors c). s - int k < x)"
proof -
  have hi: "snd (claim n c) \<in> set [fst (claim n c)..snd (claim n c)]"
    using assms by (simp add: claim_def)
  have "(\<forall>s \<in> set [fst (claim n c)..snd (claim n c)]. \<forall>x \<in> set (consumer_cursors c). s - int k < x)
        \<longleftrightarrow> (\<forall>x \<in> set (consumer_cursors c). snd (claim n c) - int k < x)"
    using hi by (auto simp: claim_def)
  then show ?thesis
    by (simp add: can_claim_def gating_def min_list_le_iff)
qed

lemma cs_inv_new: "cs_inv cs_new"
  by (simp add: cs_inv_def cs_new_def)

lemma cs_inv_add_consumer: "cs_inv c \<Longrightarrow> cs_inv (cs_add_consumer c)"
  by (simp add: cs_inv_def cs_add_consumer_def)

lemma cs_inv_publish: "cs_inv c \<Longrightarrow> producer c \<le> hi \<Longrightarrow> cs_inv (publish hi c)"
  by (fastforce simp: cs_inv_def publish_def)

lemma set_update_subset_insert': "x \<in> set (xs[i := v]) \<Longrightarrow> x = v \<or> x \<in> set xs"
  using set_update_subset_insert by fastforce

lemma cs_inv_advance:
  "cs_inv c \<Longrightarrow> -1 \<le> k \<Longrightarrow> k \<le> producer c \<Longrightarrow> cs_inv (consumer_advance i k c)"
  by (auto simp: cs_inv_def consumer_advance_def dest: set_update_subset_insert')

lemma producer_advance [simp]: "producer (consumer_advance i k c) = producer c"
  by (simp add: consumer_advance_def)

lemma consumer_cursors_publish [simp]: "consumer_cursors (publish hi c) = consumer_cursors c"
  by (simp add: publish_def)

lemma producer_publish [simp]: "producer (publish hi c) = hi"
  by (simp add: publish_def)

lemma consumer_cursors_advance [simp]:
  "consumer_cursors (consumer_advance i k c) = (consumer_cursors c)[i := k]"
  by (simp add: consumer_advance_def)

text \<open>
  Backpressure: after a claim the barrier admitted is published, no consumer is
  as much as the capacity behind the producer.
\<close>

lemma can_claim_bound:
  assumes "can_claim k n c" "x \<in> set (consumer_cursors c)"
  shows "snd (claim n c) - x < int k"
proof -
  have "consumer_cursors c \<noteq> []" using assms(2) by auto
  then have "\<forall>y \<in> set (consumer_cursors c). snd (claim n c) - int k < y"
    using assms(1) by (simp add: can_claim_def gating_def min_list_le_iff)
  then show ?thesis using assms(2) by auto
qed

end
