(* ===== verification/Disruptor.thy ===== *)
theory Disruptor
  imports RingBuffer Cursors
begin

text \<open>
  The Dispatcher (\<open>Disruptor\<close>) and its Consumer Workers (spec sections 4.4,
  4.5, 5 and 7).  The disruptor package is imported by the example scripts but
  is not part of the repository, so these definitions are written from the
  spec.  A consumer is the \<open>Consumer\<close> capability of section 6: a
  \<open>consume\<close> callback that may raise (the \<^typ>\<open>'e option\<close> of its result, next
  to the consumer's new state, since a Python callback that raises keeps the
  mutations it made before raising) or never return (\<^term>\<open>None\<close>), and a
  \<open>close\<close> callback.  The dispatcher state holds the ring, the cursors, the
  lifecycle phase, each consumer's state, and three records of what happened:
  how often each consumer's \<open>close\<close> ran, the calls of the error handler, and
  the items published and delivered so far (history variables used by the
  specification, never read by the operations).

  Each operation returns what the caller observes: \<open>Inl\<close> of an error for a
  misuse, and for the blocking operations \<^term>\<open>None\<close> when the caller would
  wait.  \<open>dstep\<close> is the concurrent system: any enabled operation of the
  producer, of a worker or of \<open>close\<close> may happen next.
\<close>

section \<open>Data\<close>

datatype phase = New | Running | Draining | Closed

datatype error = Bad_Capacity | Already_Publishing | Bus_Closed | Empty_Batch

record ('c, 'a, 'e) consumer =
  consume_op :: "'c \<Rightarrow> 'a list \<Rightarrow> ('c \<times> 'e option) option"
  close_op :: "'c \<Rightarrow> 'c \<times> 'e option"

record ('a, 'c, 'e) disruptor =
  name :: string
  ring :: "'a ring"
  curs :: cursors
  phase :: phase
  cstates :: "'c list"
  close_calls :: "nat list"
  handled :: "(nat \<times> 'a list \<times> 'e) list"
  published :: "'a list"
  delivered :: "'a list list"

section \<open>Operations\<close>

text \<open>Construction: \<open>Disruptor(name, size)\<close>; a non-positive size is a misuse.\<close>

definition disruptor_new :: "string \<Rightarrow> int \<Rightarrow> error + ('a, 'c, 'e) disruptor" where
  "disruptor_new nm sz =
     (if sz \<le> 0 then Inl Bad_Capacity
      else Inr \<lparr>name = nm, ring = rb_new (nat sz), curs = cs_new, phase = New,
                cstates = [], close_calls = [], handled = [], published = [], delivered = []\<rparr>)"

definition register_consumer ::
  "'c \<Rightarrow> ('a, 'c, 'e) disruptor \<Rightarrow> error + ('a, 'c, 'e) disruptor" where
  "register_consumer c d =
     (if phase d \<noteq> New then Inl Already_Publishing
      else Inr (d\<lparr>curs := cs_add_consumer (curs d), cstates := cstates d @ [c],
                  close_calls := close_calls d @ [0], delivered := delivered d @ [[]]\<rparr>))"

text \<open>
  \<open>produce(items)\<close>: claim \<open>len(items)\<close> sequences, write them in order, publish
  the range.  \<^term>\<open>None\<close> is the backpressure wait: the barrier does not admit
  the claim yet.
\<close>

definition produce ::
  "'a list \<Rightarrow> ('a, 'c, 'e) disruptor \<Rightarrow> (error + ('a, 'c, 'e) disruptor) option" where
  "produce xs d =
     (if phase d = Draining \<or> phase d = Closed then Some (Inl Bus_Closed)
      else if xs = [] then Some (Inl Empty_Batch)
      else if \<not> can_claim (capacity (ring d)) (length xs) (curs d) then None
      else (case claim (length xs) (curs d) of (lo, hi) \<Rightarrow>
        Some (Inr (d\<lparr>ring := rb_write_all (ring d) lo xs, curs := publish hi (curs d),
                     phase := Running, published := published d @ xs\<rparr>))))"

text \<open>
  One iteration of consumer \<open>i\<close>'s worker loop: load the producer cursor; wait
  (\<^term>\<open>None\<close>) while there is nothing new; otherwise read the batch
  \<open>cursor + 1 \<dots> producer\<close>, call \<open>consume\<close>, route a raised error to the error
  handler, and advance the cursor past the batch in either case (the skip
  policy of section 4.4).
\<close>

definition worker_step ::
  "('c, 'a, 'e) consumer \<Rightarrow> nat \<Rightarrow> ('a, 'c, 'e) disruptor \<Rightarrow> ('a, 'c, 'e) disruptor option" where
  "worker_step ops i d =
     (if length (consumer_cursors (curs d)) \<le> i then None
      else
        let c = consumer_cursors (curs d) ! i; p = producer (curs d) in
        if p \<le> c then None
        else (case rb_read_range (ring d) (c + 1) p of
          None \<Rightarrow> None
        | Some batch \<Rightarrow>
            (case consume_op ops (cstates d ! i) batch of
              None \<Rightarrow> None
            | Some (st, err) \<Rightarrow>
                Some (d\<lparr>cstates := (cstates d)[i := st],
                        curs := consumer_advance i p (curs d),
                        handled := handled d @ (case err of None \<Rightarrow> [] | Some e \<Rightarrow> [(i, batch, e)]),
                        delivered := (delivered d)[i := delivered d ! i @ batch]\<rparr>))))"

text \<open>
  \<open>close()\<close> stops new publications (phase \<open>Draining\<close>) and is idempotent;
  \<open>finish\<close> is the rest of it, enabled once every consumer has drained: each
  consumer's \<open>close\<close> runs once and the bus is \<open>Closed\<close>.
\<close>

definition close :: "('a, 'c, 'e) disruptor \<Rightarrow> ('a, 'c, 'e) disruptor" where
  "close d = (if phase d = Closed then d else d\<lparr>phase := Draining\<rparr>)"

definition finish ::
  "('c, 'a, 'e) consumer \<Rightarrow> ('a, 'c, 'e) disruptor \<Rightarrow> ('a, 'c, 'e) disruptor option" where
  "finish ops d =
     (if phase d = Draining \<and> (\<forall>x \<in> set (consumer_cursors (curs d)). x = producer (curs d))
      then Some (d\<lparr>phase := Closed, cstates := map (\<lambda>s. fst (close_op ops s)) (cstates d),
                  close_calls := map Suc (close_calls d)\<rparr>)
      else None)"

section \<open>Waiting, made deterministic\<close>

text \<open>
  The blocking calls wait for the workers.  One deterministic schedule of the
  waits: a round in which every worker runs one iteration (if it has work and its
  callback returns), \<open>produce\<close> that runs a round when the barrier blocks it, and
  \<open>close\<close> that runs a round before \<open>finish\<close>.  Every step of these schedules is
  a step of \<open>dstep\<close> below.
\<close>

definition wstep ::
  "('c, 'a, 'e) consumer \<Rightarrow> ('a, 'c, 'e) disruptor \<Rightarrow> nat \<Rightarrow> ('a, 'c, 'e) disruptor" where
  "wstep ops d i = (case worker_step ops i d of None \<Rightarrow> d | Some d' \<Rightarrow> d')"

definition work_round ::
  "('c, 'a, 'e) consumer \<Rightarrow> ('a, 'c, 'e) disruptor \<Rightarrow> ('a, 'c, 'e) disruptor" where
  "work_round ops d = fold (\<lambda>i d. wstep ops d i) [0..<length (consumer_cursors (curs d))] d"

definition produce_blocking ::
  "('c, 'a, 'e) consumer \<Rightarrow> 'a list \<Rightarrow> ('a, 'c, 'e) disruptor \<Rightarrow> (error + ('a, 'c, 'e) disruptor) option" where
  "produce_blocking ops xs d =
     (case produce xs d of None \<Rightarrow> produce xs (work_round ops d) | r \<Rightarrow> r)"

definition close_blocking ::
  "('c, 'a, 'e) consumer \<Rightarrow> ('a, 'c, 'e) disruptor \<Rightarrow> ('a, 'c, 'e) disruptor option" where
  "close_blocking ops d = (if phase d = Closed then Some d else finish ops (work_round ops (close d)))"

section \<open>The concurrent system\<close>

inductive dstep ::
  "('c, 'a, 'e) consumer \<Rightarrow> ('a, 'c, 'e) disruptor \<Rightarrow> ('a, 'c, 'e) disruptor \<Rightarrow> bool"
  for ops where
  step_register: "register_consumer c d = Inr d' \<Longrightarrow> dstep ops d d'"
| step_produce: "produce xs d = Some (Inr d') \<Longrightarrow> dstep ops d d'"
| step_work: "worker_step ops i d = Some d' \<Longrightarrow> dstep ops d d'"
| step_close: "dstep ops d (close d)"
| step_finish: "finish ops d = Some d' \<Longrightarrow> dstep ops d d'"

inductive reachable :: "('c, 'a, 'e) consumer \<Rightarrow> ('a, 'c, 'e) disruptor \<Rightarrow> bool"
  for ops where
  init: "disruptor_new nm sz = Inr d \<Longrightarrow> reachable ops d"
| step: "reachable ops d \<Longrightarrow> dstep ops d d' \<Longrightarrow> reachable ops d'"

end
