(* ===== verification/Disruptor_Invariants.thy ===== *)
theory Disruptor_Invariants
  imports Disruptor
begin

text \<open>
  The invariant of the dispatcher state and its preservation by every
  operation, hence by every reachable state.  The invariant has four parts:
  \<^item> \<open>inv_shape\<close>: the ring is well formed, the cursors satisfy spec
    invariant 1, the producer cursor is the index of the last published item,
    and there is one consumer state, close counter and delivery history per
    consumer cursor;
  \<^item> \<open>inv_data\<close>: the ring holds the last \<open>capacity\<close> published items
    (\<open>rb_holds\<close>), and what each consumer was delivered is the prefix of the
    published items up to its cursor;
  \<^item> \<open>inv_backpressure\<close>: no consumer is \<open>capacity\<close> or more sequences behind the
    producer (spec invariant 2, in the strict form the barrier formula gives);
  \<^item> \<open>inv_phase\<close>: nothing is published while the bus is \<open>New\<close>, no \<open>close\<close>
    callback has run before \<open>Closed\<close>, and at \<open>Closed\<close> each ran once and
    every consumer has caught up.
\<close>

section \<open>The invariant\<close>

abbreviation ccur :: "('a, 'c, 'e) disruptor \<Rightarrow> seqno list" where
  "ccur d \<equiv> consumer_cursors (curs d)"

abbreviation pcur :: "('a, 'c, 'e) disruptor \<Rightarrow> seqno" where
  "pcur d \<equiv> producer (curs d)"

definition inv_shape :: "('a, 'c, 'e) disruptor \<Rightarrow> bool" where
  "inv_shape d \<longleftrightarrow> rb_wf (ring d) \<and> cs_inv (curs d) \<and>
     pcur d = int (length (published d)) - 1 \<and>
     length (cstates d) = length (ccur d) \<and>
     length (close_calls d) = length (ccur d) \<and>
     length (delivered d) = length (ccur d)"

definition inv_data :: "('a, 'c, 'e) disruptor \<Rightarrow> bool" where
  "inv_data d \<longleftrightarrow> rb_holds (ring d) (published d) \<and>
     (\<forall>i < length (ccur d). delivered d ! i = upto_cursor (ccur d ! i) (published d))"

definition inv_backpressure :: "('a, 'c, 'e) disruptor \<Rightarrow> bool" where
  "inv_backpressure d \<longleftrightarrow> (\<forall>x \<in> set (ccur d). pcur d - x < int (capacity (ring d)))"

definition inv_phase :: "('a, 'c, 'e) disruptor \<Rightarrow> bool" where
  "inv_phase d \<longleftrightarrow>
     (phase d = New \<longrightarrow> published d = []) \<and>
     (phase d \<noteq> Closed \<longrightarrow> (\<forall>k \<in> set (close_calls d). k = 0)) \<and>
     (phase d = Closed \<longrightarrow> (\<forall>k \<in> set (close_calls d). k = 1) \<and> (\<forall>x \<in> set (ccur d). x = pcur d))"

definition dinv :: "('a, 'c, 'e) disruptor \<Rightarrow> bool" where
  "dinv d \<longleftrightarrow> inv_shape d \<and> inv_data d \<and> inv_backpressure d \<and> inv_phase d"

declare inv_shape_def [inv_simps] inv_data_def [inv_simps]
  inv_backpressure_def [inv_simps] inv_phase_def [inv_simps] dinv_def [inv_simps]

section \<open>What a worker reads\<close>

text \<open>
  Under the invariant, the batch a worker reads from the ring is exactly the
  published items after its cursor: no slot it reads has been overwritten
  (spec property P2).
\<close>

lemma worker_batch:
  assumes inv: "dinv d" and i: "i < length (ccur d)" and lt: "ccur d ! i < pcur d"
  shows "rb_read_range (ring d) (ccur d ! i + 1) (pcur d) =
         Some (drop (nat (ccur d ! i + 1)) (published d))"
proof -
  let ?c = "ccur d ! i" and ?xs = "published d"
  have c: "-1 \<le> ?c" "pcur d - ?c < int (capacity (ring d))"
    using inv i nth_mem [OF i] by (auto simp: inv_simps cs_inv_def)
  have p: "pcur d = int (length ?xs) - 1" using inv by (simp add: inv_simps)
  have "rb_read_range (ring d) (int (nat (?c + 1))) (int (nat (?c + 1)) + int (nat (pcur d - ?c)) - 1)
        = Some (take (nat (pcur d - ?c)) (drop (nat (?c + 1)) ?xs))"
    using inv c p lt by (intro rb_read_range_holds) (auto simp: inv_simps)
  moreover have "int (nat (?c + 1)) + int (nat (pcur d - ?c)) - 1 = pcur d"
    using c lt by simp
  moreover have "take (nat (pcur d - ?c)) (drop (nat (?c + 1)) ?xs) = drop (nat (?c + 1)) ?xs"
    using c p lt by simp
  ultimately show ?thesis using c by simp
qed

text \<open>The shape of a worker step that happened, under the invariant.\<close>

lemma worker_step_SomeE:
  assumes inv: "dinv d" and ws: "worker_step ops i d = Some d'"
  obtains st err where "i < length (ccur d)" "ccur d ! i < pcur d"
    "consume_op ops (cstates d ! i) (drop (nat (ccur d ! i + 1)) (published d)) = Some (st, err)"
    "d' = d\<lparr>cstates := (cstates d)[i := st],
            curs := consumer_advance i (pcur d) (curs d),
            handled := handled d @ (case err of None \<Rightarrow> [] | Some e \<Rightarrow>
                         [(i, drop (nat (ccur d ! i + 1)) (published d), e)]),
            delivered := (delivered d)[i := delivered d ! i @ drop (nat (ccur d ! i + 1)) (published d)]\<rparr>"
proof -
  have i: "i < length (ccur d)" and lt: "ccur d ! i < pcur d"
    using ws by (auto simp: worker_step_def Let_def split: if_splits)
  have rd: "rb_read_range (ring d) (ccur d ! i + 1) (pcur d) =
            Some (drop (nat (ccur d ! i + 1)) (published d))"
    using inv i lt by (rule worker_batch)
  show ?thesis
    using ws i lt rd that by (auto simp: worker_step_def Let_def split: option.splits)
qed

section \<open>Preservation, one operation at a time\<close>

lemma dinv_new: "disruptor_new nm sz = Inr d \<Longrightarrow> dinv d"
  by (auto simp: disruptor_new_def inv_simps rb_wf_new cs_inv_new split: if_splits)
     (simp_all add: rb_new_def cs_new_def)

lemma dinv_register:
  assumes inv: "dinv d" and r: "register_consumer c d = Inr d'"
  shows "dinv d'"
proof -
  have new: "phase d = New" and d': "d' = d\<lparr>curs := cs_add_consumer (curs d), cstates := cstates d @ [c],
      close_calls := close_calls d @ [0], delivered := delivered d @ [[]]\<rparr>"
    using r by (auto simp: register_consumer_def split: if_splits)
  then have "published d = []" using inv by (simp add: inv_simps)
  then show ?thesis
    using inv new unfolding d'
    by (auto simp: inv_simps cs_add_consumer_def cs_inv_def nth_append rb_wf_def)
qed

lemma dinv_produce:
  assumes inv: "dinv d" and pr: "produce xs d = Some (Inr d')"
  shows "dinv d'"
proof -
  have ph: "phase d = New \<or> phase d = Running" and ne: "xs \<noteq> []"
    and cc: "can_claim (capacity (ring d)) (length xs) (curs d)"
    using pr by (auto simp: produce_def split: if_splits) (cases "phase d"; simp)+
  let ?hi = "pcur d + int (length xs)"
  have d': "d' = d\<lparr>ring := rb_write_all (ring d) (pcur d + 1) xs, curs := publish ?hi (curs d),
               phase := Running, published := published d @ xs\<rparr>"
    using pr ph ne cc by (auto simp: produce_def claim_def)
  have p: "pcur d = int (length (published d)) - 1" using inv by (simp add: inv_simps)
  have ring: "rb_holds (rb_write_all (ring d) (pcur d + 1) xs) (published d @ xs)"
    using inv p rb_holds_write_all [of "ring d" "published d" xs] by (simp add: inv_simps)
  have bp: "\<forall>x \<in> set (ccur d). ?hi - x < int (capacity (ring d))"
    using can_claim_bound [OF cc] by (simp add: claim_def)
  have del: "\<forall>i < length (ccur d). upto_cursor (ccur d ! i) (published d @ xs) =
                                   upto_cursor (ccur d ! i) (published d)"
    using inv p by (auto simp: inv_simps cs_inv_def intro!: upto_cursor_append_prefix)
  show ?thesis
    using inv ring bp del ph ne p unfolding d'
    by (auto simp: inv_simps rb_wf_write_all cs_inv_publish)
qed

lemma dinv_worker:
  assumes inv: "dinv d" and ws: "worker_step ops i d = Some d'"
  shows "dinv d'"
  using inv ws
proof (rule worker_step_SomeE)
  fix st err
  assume i: "i < length (ccur d)" and lt: "ccur d ! i < pcur d"
    and d': "d' = d\<lparr>cstates := (cstates d)[i := st],
            curs := consumer_advance i (pcur d) (curs d),
            handled := handled d @ (case err of None \<Rightarrow> [] | Some e \<Rightarrow>
                         [(i, drop (nat (ccur d ! i + 1)) (published d), e)]),
            delivered := (delivered d)[i := delivered d ! i @ drop (nat (ccur d ! i + 1)) (published d)]\<rparr>"
  have c: "-1 \<le> ccur d ! i" using inv i nth_mem [OF i] by (auto simp: inv_simps cs_inv_def)
  have p: "pcur d = int (length (published d)) - 1" using inv by (simp add: inv_simps)
  have caught: "delivered d ! i @ drop (nat (ccur d ! i + 1)) (published d) = published d"
    using inv i by (simp add: inv_simps upto_cursor_def)
  have pos: "0 < capacity (ring d)" using inv by (simp add: inv_simps rb_wf_def)
  have cs: "cs_inv (consumer_advance i (pcur d) (curs d))"
    using inv c lt by (intro cs_inv_advance) (auto simp: inv_simps)
  show "dinv d'"
    using inv i lt caught pos cs p unfolding d'
    by (auto simp: inv_simps nth_list_update dest: set_update_subset_insert')
qed

lemma dinv_close: "dinv d \<Longrightarrow> dinv (close d)"
  by (auto simp: close_def inv_simps)

lemma dinv_finish:
  assumes inv: "dinv d" and f: "finish ops d = Some d'"
  shows "dinv d'"
proof -
  have dr: "phase d = Draining" and all: "\<forall>x \<in> set (ccur d). x = pcur d"
    and d': "d' = d\<lparr>phase := Closed, cstates := map (\<lambda>s. fst (close_op ops s)) (cstates d),
                   close_calls := map Suc (close_calls d)\<rparr>"
    using f by (auto simp: finish_def split: if_splits)
  show ?thesis using inv dr all unfolding d' by (auto simp: inv_simps)
qed

lemma dstep_dinv: "dstep ops d d' \<Longrightarrow> dinv d \<Longrightarrow> dinv d'"
proof (induction rule: dstep.induct)
  case (step_register c d d')
  then show ?case by (blast intro: dinv_register)
next
  case (step_produce xs d d')
  then show ?case by (blast intro: dinv_produce)
next
  case (step_work i d d')
  then show ?case by (blast intro: dinv_worker)
next
  case (step_close d)
  then show ?case by (rule dinv_close)
next
  case (step_finish d d')
  then show ?case by (blast intro: dinv_finish)
qed

theorem reachable_dinv: "reachable ops d \<Longrightarrow> dinv d"
proof (induction rule: reachable.induct)
  case (init nm sz d)
  then show ?case by (rule dinv_new)
next
  case (step d d')
  then show ?case by (blast intro: dstep_dinv)
qed

section \<open>Consequences at shutdown\<close>

lemma closed_delivered:
  assumes "dinv d" "phase d = Closed" "i < length (ccur d)"
  shows "delivered d ! i = published d \<and> close_calls d ! i = 1"
proof -
  have "ccur d ! i = pcur d" "close_calls d ! i = 1"
    using assms nth_mem [OF assms(3)] by (auto simp: inv_simps)
  then show ?thesis using assms by (simp add: inv_simps)
qed

end
