(* ===== verification/Disruptor_Schedule.thy ===== *)
theory Disruptor_Schedule
  imports Disruptor_Invariants
begin

text \<open>
  Facts about runs of the dispatcher: the full effect of one worker iteration
  (what it changes and, for every other consumer, what it leaves alone), and
  the deterministic wait schedules of \<open>Disruptor.thy\<close>: a round of all workers
  catches every consumer up with the producer, so a blocked \<open>produce\<close> of fewer
  items than the capacity then succeeds, and \<open>close\<close> finishes.  Each schedule
  is a sequence of \<open>dstep\<close> steps, so its results are reachable.
\<close>

text \<open>
  A consumer whose \<open>consume\<close> callback returns (normally or by raising) on every
  state satisfying \<open>P\<close>, into a state satisfying \<open>P\<close> again; \<open>P\<close> holds of every
  consumer state of a bus when \<open>states_ok P\<close> does.
\<close>

definition callbacks_return :: "('c \<Rightarrow> bool) \<Rightarrow> ('c, 'a, 'e) consumer \<Rightarrow> bool" where
  "callbacks_return P ops \<longleftrightarrow>
     (\<forall>s b. P s \<longrightarrow> (\<exists>s' e. consume_op ops s b = Some (s', e) \<and> P s'))"

definition states_ok :: "('c \<Rightarrow> bool) \<Rightarrow> ('a, 'c, 'e) disruptor \<Rightarrow> bool" where
  "states_ok P d \<longleftrightarrow> (\<forall>c \<in> set (cstates d). P c)"

definition caught_up :: "('a, 'c, 'e) disruptor \<Rightarrow> bool" where
  "caught_up d \<longleftrightarrow> (\<forall>x \<in> set (ccur d). x = pcur d)"

section \<open>Runs\<close>

lemma reachable_steps: "(dstep ops)\<^sup>*\<^sup>* d d' \<Longrightarrow> reachable ops d \<Longrightarrow> reachable ops d'"
  by (induction rule: rtranclp_induct) (auto intro: reachable.step)

lemma dinv_steps: "(dstep ops)\<^sup>*\<^sup>* d d' \<Longrightarrow> dinv d \<Longrightarrow> dinv d'"
  by (induction rule: rtranclp_induct) (auto intro: dstep_dinv)

section \<open>One worker iteration\<close>

lemma worker_step_effect:
  assumes inv: "dinv d" and ws: "worker_step ops i d = Some d'"
  shows "pcur d' = pcur d \<and> published d' = published d \<and> phase d' = phase d \<and>
         ring d' = ring d \<and> close_calls d' = close_calls d \<and>
         length (ccur d') = length (ccur d) \<and> i < length (ccur d) \<and>
         ccur d ! i < pcur d \<and> ccur d' ! i = pcur d \<and> delivered d' ! i = published d \<and>
         (\<forall>j. j \<noteq> i \<longrightarrow> ccur d' ! j = ccur d ! j \<and> cstates d' ! j = cstates d ! j \<and>
                        delivered d' ! j = delivered d ! j)"
  using inv ws
proof (rule worker_step_SomeE)
  fix st err
  assume i: "i < length (ccur d)" and lt: "ccur d ! i < pcur d"
    and d': "d' = d\<lparr>cstates := (cstates d)[i := st],
            curs := consumer_advance i (pcur d) (curs d),
            handled := handled d @ (case err of None \<Rightarrow> [] | Some e \<Rightarrow>
                         [(i, drop (nat (ccur d ! i + 1)) (published d), e)]),
            delivered := (delivered d)[i := delivered d ! i @ drop (nat (ccur d ! i + 1)) (published d)]\<rparr>"
  have "delivered d ! i @ drop (nat (ccur d ! i + 1)) (published d) = published d"
    using inv i by (simp add: inv_simps upto_cursor_def)
  then show ?thesis using inv i lt unfolding d' by (simp add: inv_simps)
qed

lemma worker_step_enabled:
  assumes inv: "dinv d" and i: "i < length (ccur d)" and lt: "ccur d ! i < pcur d"
    and cb: "callbacks_return P ops" and ok: "states_ok P d"
  shows "\<exists>d'. worker_step ops i d = Some d' \<and> states_ok P d'"
proof -
  have "length (cstates d) = length (ccur d)" using inv by (simp add: dinv_def inv_shape_def)
  then have "P (cstates d ! i)" using ok i by (simp add: states_ok_def)
  then obtain st e where r: "consume_op ops (cstates d ! i) (drop (nat (ccur d ! i + 1)) (published d)) = Some (st, e)"
    and st: "P st"
    using cb unfolding callbacks_return_def by blast
  have "states_ok P (d\<lparr>cstates := (cstates d)[i := st]\<rparr>)"
    using ok st by (auto simp: states_ok_def dest: set_update_subset_insert [THEN subsetD])
  then show ?thesis
    using r worker_batch [OF inv i lt] i lt
    by (auto simp: worker_step_def Let_def states_ok_def split: prod.splits)
qed

lemma dinv_cursor_le:
  "dinv d \<Longrightarrow> i < length (ccur d) \<Longrightarrow> -1 \<le> ccur d ! i \<and> ccur d ! i \<le> pcur d"
proof -
  assume inv: "dinv d" and i: "i < length (ccur d)"
  have "cs_inv (curs d)" using inv by (simp add: dinv_def inv_shape_def)
  then show ?thesis using nth_mem [OF i] by (simp add: cs_inv_def)
qed

lemma wstep_effect:
  assumes inv: "dinv d" and cb: "callbacks_return P ops" and ok: "states_ok P d"
    and i: "i < length (ccur d)"
  shows "(dstep ops)\<^sup>*\<^sup>* d (wstep ops d i) \<and> states_ok P (wstep ops d i) \<and> pcur (wstep ops d i) = pcur d \<and>
         published (wstep ops d i) = published d \<and> phase (wstep ops d i) = phase d \<and>
         ring (wstep ops d i) = ring d \<and>
         length (ccur (wstep ops d i)) = length (ccur d) \<and> ccur (wstep ops d i) ! i = pcur d \<and>
         (\<forall>j. j \<noteq> i \<longrightarrow> ccur (wstep ops d i) ! j = ccur d ! j)"
proof (cases "ccur d ! i < pcur d")
  case True
  then obtain d' where ws: "worker_step ops i d = Some d'" and ok': "states_ok P d'"
    using worker_step_enabled [OF inv i _ cb ok] by blast
  from ws have st: "dstep ops d d'" by (rule step_work)
  have w: "wstep ops d i = d'" using ws by (simp add: wstep_def)
  note eff = worker_step_effect [OF inv ws]
  show ?thesis unfolding w
  proof (intro conjI)
    show "(dstep ops)\<^sup>*\<^sup>* d d'" using st by blast
  qed (use eff ok' in blast)+
next
  case False
  then have "ccur d ! i = pcur d" using dinv_cursor_le [OF inv i] by simp
  then have "worker_step ops i d = None" by (simp add: worker_step_def Let_def)
  then have "wstep ops d i = d" by (simp add: wstep_def)
  then show ?thesis using \<open>ccur d ! i = pcur d\<close> ok by simp
qed

section \<open>A round of all workers\<close>

lemma fold_wstep:
  assumes "dinv d" "callbacks_return P ops" "states_ok P d" "set is \<subseteq> {..<length (ccur d)}"
  shows "(dstep ops)\<^sup>*\<^sup>* d (fold (\<lambda>i d. wstep ops d i) is d) \<and>
         states_ok P (fold (\<lambda>i d. wstep ops d i) is d) \<and>
         pcur (fold (\<lambda>i d. wstep ops d i) is d) = pcur d \<and>
         published (fold (\<lambda>i d. wstep ops d i) is d) = published d \<and>
         phase (fold (\<lambda>i d. wstep ops d i) is d) = phase d \<and>
         ring (fold (\<lambda>i d. wstep ops d i) is d) = ring d \<and>
         length (ccur (fold (\<lambda>i d. wstep ops d i) is d)) = length (ccur d) \<and>
         (\<forall>i \<in> set is. ccur (fold (\<lambda>i d. wstep ops d i) is d) ! i = pcur d) \<and>
         (\<forall>j. j \<notin> set is \<longrightarrow> ccur (fold (\<lambda>i d. wstep ops d i) is d) ! j = ccur d ! j)"
  using assms
proof (induction "is" arbitrary: d)
  case Nil
  then show ?case by simp
next
  case (Cons i "is")
  let ?d1 = "wstep ops d i"
  have i: "i < length (ccur d)" using Cons.prems by simp
  note one = wstep_effect [OF Cons.prems(1,2,3) i]
  have inv1: "dinv ?d1" using one Cons.prems(1) by (blast intro: dinv_steps)
  have ok1: "states_ok P ?d1" using one by blast
  have "set is \<subseteq> {..<length (ccur ?d1)}" using Cons.prems(4) one by simp
  note rest = Cons.IH [OF inv1 Cons.prems(2) ok1 this]
  show ?case
  proof (intro conjI)
    show "(dstep ops)\<^sup>*\<^sup>* d (fold (\<lambda>i d. wstep ops d i) (i # is) d)"
      using one rest by (simp del: fold_simps) (metis fold_simps(2) rtranclp_trans)
  qed (use one rest in auto)
qed

lemma work_round_effect:
  assumes "dinv d" "callbacks_return P ops" "states_ok P d"
  shows "(dstep ops)\<^sup>*\<^sup>* d (work_round ops d) \<and> caught_up (work_round ops d) \<and>
         states_ok P (work_round ops d) \<and>
         pcur (work_round ops d) = pcur d \<and> published (work_round ops d) = published d \<and>
         phase (work_round ops d) = phase d \<and> ring (work_round ops d) = ring d \<and>
         length (ccur (work_round ops d)) = length (ccur d)"
proof -
  have sub: "set [0..<length (ccur d)] \<subseteq> {..<length (ccur d)}" by auto
  note f = fold_wstep [OF assms sub]
  have "\<forall>x \<in> set (ccur (work_round ops d)). x = pcur d"
    using f by (auto simp: work_round_def in_set_conv_nth)
  then show ?thesis using f by (simp add: work_round_def caught_up_def)
qed

text \<open>Once every consumer has caught up, a claim of fewer items than the capacity passes the barrier.\<close>

lemma produce_caught_up:
  assumes inv: "dinv d" and cu: "caught_up d" and ph: "phase d = New \<or> phase d = Running"
    and ne: "xs \<noteq> []" and small: "length xs < capacity (ring d)"
  shows "\<exists>d'. produce xs d = Some (Inr d')"
proof -
  have "can_claim (capacity (ring d)) (length xs) (curs d)"
    using cu small by (auto simp: can_claim_def gating_def claim_def caught_up_def min_list_le_iff
                             split: option.splits)
  then show ?thesis using ph ne by (auto simp: produce_def claim_def)
qed

section \<open>A full ring\<close>

text \<open>
  The barrier of the spec admits a claim of \<open>n\<close> sequences only while
  \<open>producer + n - capacity\<close> is below the slowest consumer cursor.  A
  consumer cursor never passes the producer cursor, so a claim of
  \<open>capacity\<close> or more sequences is never admitted while a consumer is
  registered: in particular nothing can be produced into a ring of one slot.
\<close>

lemma produce_blocked_full:
  assumes inv: "dinv d" and ne: "ccur d \<noteq> []" and big: "capacity (ring d) \<le> length xs"
    and ph: "phase d = New \<or> phase d = Running" and xs: "xs \<noteq> []"
  shows "produce xs d = None"
proof -
  have z: "0 < length (ccur d)" using ne by simp
  then have "ccur d ! 0 \<le> pcur d" using dinv_cursor_le [OF inv] by simp
  then have "\<not> pcur d < min_list (ccur d)"
    using nth_mem [OF z] min_list_le_iff [OF ne] by fastforce
  then have "min_list (ccur d) \<le> pcur d" by simp
  then have "\<not> can_claim (capacity (ring d)) (length xs) (curs d)"
    using ne big by (auto simp: can_claim_def gating_def claim_def)
  then show ?thesis using ph xs by (auto simp: produce_def)
qed

lemma work_round_keeps:
  assumes "dinv d"
  shows "dinv (work_round ops d) \<and> phase (work_round ops d) = phase d \<and>
         length (ccur (work_round ops d)) = length (ccur d) \<and> ring (work_round ops d) = ring d"
proof -
  have "dinv (fold (\<lambda>i d. wstep ops d i) is d) \<and> phase (fold (\<lambda>i d. wstep ops d i) is d) = phase d \<and>
        length (ccur (fold (\<lambda>i d. wstep ops d i) is d)) = length (ccur d) \<and>
        ring (fold (\<lambda>i d. wstep ops d i) is d) = ring d" if "dinv d" for "is" d
    using that
  proof (induction "is" arbitrary: d)
    case Nil
    then show ?case by simp
  next
    case (Cons i "is")
    have "dinv (wstep ops d i) \<and> phase (wstep ops d i) = phase d \<and>
          length (ccur (wstep ops d i)) = length (ccur d) \<and> ring (wstep ops d i) = ring d"
    proof (cases "worker_step ops i d")
      case None
      then show ?thesis using Cons.prems by (simp add: wstep_def)
    next
      case (Some d')
      then show ?thesis using Cons.prems worker_step_effect [OF Cons.prems Some] step_work [OF Some]
        by (simp add: wstep_def dstep_dinv)
    qed
    then show ?case using Cons.IH [of "wstep ops d i"] by simp
  qed
  then show ?thesis using assms by (simp add: work_round_def)
qed

end
