(* ===== verification/Consumer_Interface.thy ===== *)
theory Consumer_Interface
  imports Disruptor_Schedule
begin

text \<open>
  The interface between the bus and a concrete consumer.  A consumer
  implementation promises, through an abstraction \<open>\<alpha>\<close> of its state to the list
  of items it has accounted for, that each \<open>consume\<close> call extends that list by
  exactly its batch and that \<open>close\<close> keeps it (\<open>consumer_tracks\<close>).  The bus
  then keeps every consumer's \<open>\<alpha>\<close> equal to what was delivered to it
  (\<open>tracks\<close>).  The consumers of the example scripts discharge
  \<open>consumer_tracks\<close> in their own theories.

  The second part runs the deterministic schedules: a sequence of blocking
  \<open>produce\<close> calls of one item each, as every driver script makes, and a
  blocking \<open>close\<close>.
\<close>

definition consumer_tracks ::
  "('c \<Rightarrow> bool) \<Rightarrow> ('c \<Rightarrow> bool) \<Rightarrow> ('c \<Rightarrow> 'a list) \<Rightarrow> ('c, 'a, 'e) consumer \<Rightarrow> bool" where
  "consumer_tracks P Q \<alpha> ops \<longleftrightarrow>
     (\<forall>s b s' e. P s \<longrightarrow> Q s \<longrightarrow> consume_op ops s b = Some (s', e) \<longrightarrow> Q s' \<and> \<alpha> s' = \<alpha> s @ b) \<and>
     (\<forall>s. P s \<longrightarrow> Q s \<longrightarrow> \<alpha> (fst (close_op ops s)) = \<alpha> s)"

definition tracks ::
  "nat set \<Rightarrow> ('c \<Rightarrow> bool) \<Rightarrow> ('c \<Rightarrow> 'a list) \<Rightarrow> ('a, 'c, 'e) disruptor \<Rightarrow> bool" where
  "tracks J Q \<alpha> d \<longleftrightarrow>
     (\<forall>j \<in> J. j < length (ccur d) \<longrightarrow> Q (cstates d ! j) \<and> \<alpha> (cstates d ! j) = delivered d ! j)"

text \<open>The driver loop: \<open>for i in items: disruptor.produce([i])\<close>.\<close>

fun produce_each ::
  "('c, 'a, 'e) consumer \<Rightarrow> 'a list \<Rightarrow> ('a, 'c, 'e) disruptor \<Rightarrow>
   (error \<times> ('a, 'c, 'e) disruptor + ('a, 'c, 'e) disruptor) option" where
  "produce_each ops [] d = Some (Inr d)"
| "produce_each ops (x # xs) d =
     (case produce_blocking ops [x] d of
        None \<Rightarrow> None
      | Some (Inl e) \<Rightarrow> Some (Inl (e, d))
      | Some (Inr d') \<Rightarrow> produce_each ops xs d')"

text \<open>
  The common shape of the \<open>main()\<close> functions of the three scripts: build a
  disruptor, register the consumers in order, produce the items one per call,
  and close the bus in the \<open>finally\<close> clause.  When a registration or a
  \<open>produce\<close> call raises, the bus is closed all the same and the error is
  the result; such a call fails before it changes the bus, so the failing
  helper returns the error with the bus it was given.  The constructor is
  called before the \<open>try\<close>, so its error closes nothing.
\<close>

fun register_all ::
  "'c list \<Rightarrow> ('a, 'c, 'e) disruptor \<Rightarrow> error \<times> ('a, 'c, 'e) disruptor + ('a, 'c, 'e) disruptor" where
  "register_all [] d = Inr d"
| "register_all (c # cs) d =
     (case register_consumer c d of Inl e \<Rightarrow> Inl (e, d) | Inr d' \<Rightarrow> register_all cs d')"

definition script_main ::
  "string \<Rightarrow> int \<Rightarrow> 'c list \<Rightarrow> ('c, 'a, 'e) consumer \<Rightarrow> 'a list \<Rightarrow>
   (error + ('a, 'c, 'e) disruptor) option" where
  "script_main nm sz cs ops items =
     (case disruptor_new nm sz of
        Inl e \<Rightarrow> Some (Inl e)
      | Inr d0 \<Rightarrow>
        (case register_all cs d0 of
           Inl (e, d) \<Rightarrow> map_option (\<lambda>_. Inl e) (close_blocking ops d)
         | Inr d1 \<Rightarrow>
           (case produce_each ops items d1 of
              None \<Rightarrow> None
            | Some (Inl (e, d)) \<Rightarrow> map_option (\<lambda>_. Inl e) (close_blocking ops d)
            | Some (Inr d2) \<Rightarrow> map_option Inr (close_blocking ops d2))))"

section \<open>The bus keeps the consumers' accounts\<close>

lemma tracks_produce:
  "produce xs d = Some (Inr d') \<Longrightarrow> tracks J Q \<alpha> d \<Longrightarrow> tracks J Q \<alpha> d'"
  by (auto simp: produce_def tracks_def claim_def split: if_splits)

lemma tracks_worker:
  assumes inv: "dinv d" and ws: "worker_step ops i d = Some d'"
    and ct: "consumer_tracks P Q \<alpha> ops" and ok: "states_ok P d" and tr: "tracks J Q \<alpha> d"
  shows "tracks J Q \<alpha> d'"
  using inv ws
proof (rule worker_step_SomeE)
  fix st err
  assume i: "i < length (ccur d)"
    and cb: "consume_op ops (cstates d ! i) (drop (nat (ccur d ! i + 1)) (published d)) = Some (st, err)"
    and d': "d' = d\<lparr>cstates := (cstates d)[i := st],
            curs := consumer_advance i (pcur d) (curs d),
            handled := handled d @ (case err of None \<Rightarrow> [] | Some e \<Rightarrow>
                         [(i, drop (nat (ccur d ! i + 1)) (published d), e)]),
            delivered := (delivered d)[i := delivered d ! i @ drop (nat (ccur d ! i + 1)) (published d)]\<rparr>"
  have len: "length (cstates d) = length (ccur d)" "length (delivered d) = length (ccur d)"
    using inv by (simp_all add: dinv_def inv_shape_def)
  then have "P (cstates d ! i)" using ok i by (simp add: states_ok_def)
  then have "Q (cstates d ! i) \<Longrightarrow>
      Q st \<and> \<alpha> st = \<alpha> (cstates d ! i) @ drop (nat (ccur d ! i + 1)) (published d)"
    using ct cb unfolding consumer_tracks_def by blast
  then show "tracks J Q \<alpha> d'"
    using tr i len unfolding d' by (auto simp: tracks_def nth_list_update)
qed

lemma tracks_close: "tracks J Q \<alpha> d \<Longrightarrow> tracks J Q \<alpha> (close d)"
  by (simp add: close_def tracks_def)

lemma tracks_finish:
  assumes inv: "dinv d" and f: "finish ops d = Some d'"
    and ct: "consumer_tracks P Q \<alpha> ops" and ok: "states_ok P d" and tr: "tracks J Q \<alpha> d"
  shows "tracks J (\<lambda>c. \<exists>s. P s \<and> Q s \<and> c = fst (close_op ops s)) \<alpha> d'"
proof -
  have d': "d' = d\<lparr>phase := Closed, cstates := map (\<lambda>s. fst (close_op ops s)) (cstates d),
                   close_calls := map Suc (close_calls d)\<rparr>"
    using f by (auto simp: finish_def split: if_splits)
  have len: "length (cstates d) = length (ccur d)" using inv by (simp add: dinv_def inv_shape_def)
  show ?thesis unfolding tracks_def
  proof (intro ballI impI)
    fix j
    assume j: "j \<in> J" "j < length (ccur d')"
    then have jl: "j < length (ccur d)" and cj: "cstates d' ! j = fst (close_op ops (cstates d ! j))"
      using len unfolding d' by simp_all
    have p: "P (cstates d ! j)" using ok jl len by (simp add: states_ok_def)
    have q: "Q (cstates d ! j)" "\<alpha> (cstates d ! j) = delivered d ! j"
      using tr j(1) jl by (simp_all add: tracks_def)
    have "\<alpha> (cstates d' ! j) = delivered d' ! j"
      using p q ct cj unfolding consumer_tracks_def by (simp add: d')
    then show "(\<exists>s. P s \<and> Q s \<and> cstates d' ! j = fst (close_op ops s)) \<and>
               \<alpha> (cstates d' ! j) = delivered d' ! j"
      using p q cj by blast
  qed
qed

lemma tracks_fold_wstep:
  "dinv d \<Longrightarrow> callbacks_return P ops \<Longrightarrow> consumer_tracks P Q \<alpha> ops \<Longrightarrow> states_ok P d \<Longrightarrow>
   tracks J Q \<alpha> d \<Longrightarrow> set is \<subseteq> {..<length (ccur d)} \<Longrightarrow> tracks J Q \<alpha> (fold (\<lambda>i d. wstep ops d i) is d)"
proof (induction "is" arbitrary: d)
  case Nil
  then show ?case by simp
next
  case (Cons i "is")
  have i: "i < length (ccur d)" using Cons.prems by simp
  note one = wstep_effect [OF Cons.prems(1,2,4) i]
  have inv1: "dinv (wstep ops d i)" using one Cons.prems(1) by (blast intro: dinv_steps)
  have ok1: "states_ok P (wstep ops d i)" using one by blast
  have tr1: "tracks J Q \<alpha> (wstep ops d i)"
    using Cons.prems by (auto simp: wstep_def intro: tracks_worker split: option.splits)
  have "set is \<subseteq> {..<length (ccur (wstep ops d i))}" using Cons.prems(6) one by simp
  then show ?case using Cons.IH [OF inv1 Cons.prems(2,3) ok1 tr1] by simp
qed

lemma tracks_work_round:
  "dinv d \<Longrightarrow> callbacks_return P ops \<Longrightarrow> consumer_tracks P Q \<alpha> ops \<Longrightarrow> states_ok P d \<Longrightarrow>
   tracks J Q \<alpha> d \<Longrightarrow> tracks J Q \<alpha> (work_round ops d)"
  unfolding work_round_def by (rule tracks_fold_wstep) auto

section \<open>Runs of the blocking schedules\<close>

lemma produce_InrD:
  assumes "produce xs d = Some (Inr d')"
  shows "published d' = published d @ xs \<and> phase d' = Running \<and> ccur d' = ccur d \<and>
         length (ccur d') = length (ccur d) \<and> capacity (ring d') = capacity (ring d) \<and>
         cstates d' = cstates d \<and> (phase d = New \<or> phase d = Running) \<and> dstep ops d d'"
  using assms step_produce [OF assms]
  by (auto simp: produce_def claim_def split: if_splits) (cases "phase d"; simp)+

lemma produce_blocking_run:
  assumes inv: "dinv d" and cb: "callbacks_return P ops" and ok: "states_ok P d"
    and ph: "phase d = New \<or> phase d = Running"
    and ne: "xs \<noteq> []" and small: "length xs < capacity (ring d)"
  shows "\<exists>d'. produce_blocking ops xs d = Some (Inr d') \<and> (dstep ops)\<^sup>*\<^sup>* d d' \<and>
           published d' = published d @ xs \<and> phase d' = Running \<and> states_ok P d' \<and>
           length (ccur d') = length (ccur d) \<and> capacity (ring d') = capacity (ring d) \<and>
           (consumer_tracks P Q \<alpha> ops \<longrightarrow> tracks J Q \<alpha> d \<longrightarrow> tracks J Q \<alpha> d')"
proof (cases "produce xs d")
  case None
  let ?d1 = "work_round ops d"
  note w = work_round_effect [OF inv cb ok]
  have inv1: "dinv ?d1" using w inv by (blast intro: dinv_steps)
  obtain d2 where p2: "produce xs ?d1 = Some (Inr d2)"
    using produce_caught_up [OF inv1 _ _ ne] w ph small by auto
  note p2D = produce_InrD [OF p2, where ops = ops]
  have "(dstep ops)\<^sup>*\<^sup>* d d2" using w p2D by (meson rtranclp.rtrancl_into_rtrancl)
  moreover have "consumer_tracks P Q \<alpha> ops \<longrightarrow> tracks J Q \<alpha> d \<longrightarrow> tracks J Q \<alpha> d2"
    using tracks_work_round [OF inv cb _ ok] tracks_produce [OF p2] by blast
  moreover have "states_ok P d2" using w p2D by (simp add: states_ok_def)
  ultimately show ?thesis using None p2 p2D w by (simp add: produce_blocking_def)
next
  case (Some r)
  then obtain d1 where p1: "produce xs d = Some (Inr d1)"
    using ph ne by (cases r) (auto simp: produce_def claim_def split: if_splits)
  note p1D = produce_InrD [OF p1, where ops = ops]
  show ?thesis using p1 p1D ok tracks_produce [OF p1] by (auto simp: produce_blocking_def states_ok_def)
qed

lemma produce_each_run:
  assumes "dinv d" "callbacks_return P ops" "states_ok P d" "phase d = New \<or> phase d = Running"
    "1 < capacity (ring d)"
  shows "\<exists>d'. produce_each ops xs d = Some (Inr d') \<and> (dstep ops)\<^sup>*\<^sup>* d d' \<and>
           published d' = published d @ xs \<and> (phase d' = New \<or> phase d' = Running) \<and>
           states_ok P d' \<and> length (ccur d') = length (ccur d) \<and> capacity (ring d') = capacity (ring d) \<and>
           (consumer_tracks P Q \<alpha> ops \<longrightarrow> tracks J Q \<alpha> d \<longrightarrow> tracks J Q \<alpha> d')"
  using assms
proof (induction xs arbitrary: d)
  case Nil
  then show ?case by simp
next
  case (Cons x xs)
  obtain d1 where r1: "produce_blocking ops [x] d = Some (Inr d1)" and s1: "(dstep ops)\<^sup>*\<^sup>* d d1"
    and f1: "published d1 = published d @ [x]" "phase d1 = Running" "states_ok P d1"
            "length (ccur d1) = length (ccur d)" "capacity (ring d1) = capacity (ring d)"
    and t1: "consumer_tracks P Q \<alpha> ops \<longrightarrow> tracks J Q \<alpha> d \<longrightarrow> tracks J Q \<alpha> d1"
    using produce_blocking_run [OF Cons.prems(1-4), where xs = "[x]" and Q = Q and \<alpha> = \<alpha> and J = J] Cons.prems(5) by auto
  have inv1: "dinv d1" using s1 Cons.prems(1) by (rule dinv_steps)
  have ph1: "phase d1 = New \<or> phase d1 = Running" and cap1: "1 < capacity (ring d1)"
    using f1 Cons.prems(5) by simp_all
  obtain d2 where "produce_each ops xs d1 = Some (Inr d2)" "(dstep ops)\<^sup>*\<^sup>* d1 d2"
    "published d2 = published d1 @ xs" "phase d2 = New \<or> phase d2 = Running" "states_ok P d2"
    "length (ccur d2) = length (ccur d1)" "capacity (ring d2) = capacity (ring d1)"
    "consumer_tracks P Q \<alpha> ops \<longrightarrow> tracks J Q \<alpha> d1 \<longrightarrow> tracks J Q \<alpha> d2"
    using Cons.IH [OF inv1 Cons.prems(2) f1(3) ph1 cap1] by blast
  then show ?case using r1 s1 f1 t1 by (auto intro: rtranclp_trans)
qed

lemma close_blocking_run:
  assumes inv: "dinv d" and cb: "callbacks_return P ops" and ok: "states_ok P d"
  shows "\<exists>d'. close_blocking ops d = Some d' \<and> (dstep ops)\<^sup>*\<^sup>* d d' \<and> phase d' = Closed \<and>
           published d' = published d \<and> length (ccur d') = length (ccur d) \<and>
           (phase d \<noteq> Closed \<longrightarrow> consumer_tracks P Q \<alpha> ops \<longrightarrow> tracks J Q \<alpha> d \<longrightarrow>
              tracks J (\<lambda>c. \<exists>s. P s \<and> Q s \<and> c = fst (close_op ops s)) \<alpha> d') \<and>
           (phase d \<noteq> Closed \<longrightarrow> (\<forall>c \<in> set (cstates d'). \<exists>s. P s \<and> c = fst (close_op ops s)))"
proof (cases "phase d = Closed")
  case True
  then show ?thesis by (simp add: close_blocking_def)
next
  case False
  let ?d1 = "close d"
  have s1: "dstep ops d ?d1" by (rule step_close)
  have inv1: "dinv ?d1" using inv by (rule dinv_close)
  have ok1: "states_ok P ?d1" using ok by (simp add: close_def states_ok_def)
  note w = work_round_effect [OF inv1 cb ok1]
  have inv2: "dinv (work_round ops ?d1)" using w inv1 by (blast intro: dinv_steps)
  let ?d3 = "(work_round ops ?d1)\<lparr>phase := Closed,
     cstates := map (\<lambda>s. fst (close_op ops s)) (cstates (work_round ops ?d1)),
     close_calls := map Suc (close_calls (work_round ops ?d1))\<rparr>"
  have cu: "\<forall>x \<in> set (ccur (work_round ops ?d1)). x = pcur (work_round ops ?d1)"
    using w unfolding caught_up_def by blast
  have ph2: "phase (work_round ops ?d1) = Draining" using w False by (simp add: close_def)
  have f: "finish ops (work_round ops ?d1) = Some ?d3"
    unfolding finish_def using cu ph2 by auto
  have "(dstep ops)\<^sup>*\<^sup>* d ?d3"
    using s1 w step_finish [OF f] by (meson converse_rtranclp_into_rtranclp rtranclp.rtrancl_into_rtrancl)
  moreover have "consumer_tracks P Q \<alpha> ops \<longrightarrow> tracks J Q \<alpha> d \<longrightarrow> tracks J (\<lambda>c. \<exists>s. P s \<and> Q s \<and> c = fst (close_op ops s)) \<alpha> ?d3"
    using tracks_finish [OF inv2 f _ _] tracks_work_round [OF inv1 cb _ ok1] tracks_close w by blast
  moreover have "\<forall>c \<in> set (cstates ?d3). \<exists>s. P s \<and> c = fst (close_op ops s)"
    using w by (auto simp: states_ok_def)
  ultimately show ?thesis using False f w by (simp add: close_blocking_def close_def)
qed

section \<open>A run of a script's main()\<close>

lemma register_all_run:
  assumes "dinv d" "phase d = New" "states_ok P d" "\<forall>c \<in> set cs. P c"
  shows "\<exists>d'. register_all cs d = Inr d' \<and> dinv d' \<and> phase d' = New \<and> states_ok P d' \<and>
           cstates d' = cstates d @ cs \<and> delivered d' = delivered d @ replicate (length cs) [] \<and>
           length (ccur d') = length (ccur d) + length cs \<and>
           capacity (ring d') = capacity (ring d) \<and> published d' = published d"
  using assms
proof (induction cs arbitrary: d)
  case Nil
  then show ?case by simp
next
  case (Cons c cs)
  define d1 where "d1 = d\<lparr>curs := cs_add_consumer (curs d), cstates := cstates d @ [c],
                     close_calls := close_calls d @ [0], delivered := delivered d @ [[]]\<rparr>"
  have r: "register_consumer c d = Inr d1" using Cons.prems(2) by (simp add: register_consumer_def d1_def)
  have inv1: "dinv d1" using Cons.prems(1) r by (rule dinv_register)
  have ok1: "states_ok P d1" using Cons.prems(3,4) by (simp add: states_ok_def d1_def)
  have l1: "length (ccur d1) = Suc (length (ccur d))" by (simp add: d1_def cs_add_consumer_def)
  obtain d' where "register_all cs d1 = Inr d'" "dinv d'" "phase d' = New" "states_ok P d'"
    "cstates d' = cstates d1 @ cs" "delivered d' = delivered d1 @ replicate (length cs) []"
    "length (ccur d') = length (ccur d1) + length cs"
    "capacity (ring d') = capacity (ring d1)" "published d' = published d1"
    using Cons.IH [OF inv1 _ ok1] Cons.prems(2,4) by (auto simp: d1_def)
  then show ?case using r l1 by (simp add: d1_def replicate_app_Cons_same)
qed

text \<open>
  Any of the scripts' \<open>main()\<close> runs to the end when the consumers' callbacks
  return and the buffer holds more than one item: the bus ends closed, each
  consumer was closed once, and every tracked consumer (those of \<open>J\<close>, whose
  initial state satisfies \<open>Q\<close>) has been given every item in order.  Each
  final consumer state is the result of \<open>close\<close> on a state satisfying \<open>P\<close>,
  and \<open>Q\<close> for the tracked ones.
\<close>

lemma script_main_run:
  fixes ops :: "('c, 'a, 'e) consumer"
  assumes cb: "callbacks_return P ops" and ct: "consumer_tracks P Q \<alpha> ops"
    and cs: "\<forall>c \<in> set cs. P c" and q: "\<forall>j \<in> J. j < length cs \<longrightarrow> Q (cs ! j) \<and> \<alpha> (cs ! j) = []"
    and sz: "1 < sz"
  shows "\<exists>d. script_main nm sz cs ops items = Some (Inr d) \<and> phase d = Closed \<and>
           length (cstates d) = length cs \<and> close_calls d = replicate (length cs) 1 \<and>
           (\<forall>j \<in> J. j < length cs \<longrightarrow> \<alpha> (cstates d ! j) = items \<and>
              (\<exists>s. P s \<and> Q s \<and> cstates d ! j = fst (close_op ops s))) \<and>
           (\<forall>c \<in> set (cstates d). \<exists>s. P s \<and> c = fst (close_op ops s))"
proof -
  define d0 :: "('a, 'c, 'e) disruptor" where
    "d0 = \<lparr>name = nm, ring = rb_new (nat sz), curs = cs_new, phase = New,
           cstates = [], close_calls = [], handled = [], published = [], delivered = []\<rparr>"
  have n0: "disruptor_new nm sz = Inr d0" using sz by (simp add: disruptor_new_def d0_def)
  have inv0: "dinv d0" by (rule dinv_new [OF n0])
  have "states_ok P d0" "phase d0 = New" by (simp_all add: d0_def states_ok_def)
  then obtain d1 where r1: "register_all cs d0 = Inr d1" and inv1: "dinv d1"
    and f1: "phase d1 = New" "states_ok P d1" "cstates d1 = cs" "delivered d1 = replicate (length cs) []"
            "length (ccur d1) = length cs" "1 < capacity (ring d1)" "published d1 = []"
    using register_all_run [OF inv0 _ _ cs] sz by (auto simp: d0_def cs_new_def rb_new_def)
  have tr1: "tracks J Q \<alpha> d1" using q f1 by (simp add: tracks_def)
  obtain d2 where p2: "produce_each ops items d1 = Some (Inr d2)" and s2: "(dstep ops)\<^sup>*\<^sup>* d1 d2"
    and f2: "published d2 = items" "states_ok P d2" "length (ccur d2) = length cs" "tracks J Q \<alpha> d2"
            "phase d2 \<noteq> Closed"
    using produce_each_run [OF inv1 cb f1(2) _ f1(6), where xs = items and Q = Q and \<alpha> = \<alpha> and J = J] f1 ct tr1 by auto
  have inv2: "dinv d2" using s2 inv1 by (rule dinv_steps)
  obtain d3 where c3: "close_blocking ops d2 = Some d3" and s3: "(dstep ops)\<^sup>*\<^sup>* d2 d3"
    and f3: "phase d3 = Closed" "published d3 = items" "length (ccur d3) = length cs"
            "tracks J (\<lambda>c. \<exists>s. P s \<and> Q s \<and> c = fst (close_op ops s)) \<alpha> d3"
            "\<forall>c \<in> set (cstates d3). \<exists>s. P s \<and> c = fst (close_op ops s)"
    using close_blocking_run [OF inv2 cb f2(2), where Q = Q and \<alpha> = \<alpha> and J = J] f2 ct by auto
  have inv3: "dinv d3" using s3 inv2 by (rule dinv_steps)
  have lens: "length (cstates d3) = length cs" "length (close_calls d3) = length cs"
    using inv3 f3(3) by (simp_all add: dinv_def inv_shape_def)
  have each: "close_calls d3 ! j = 1 \<and> delivered d3 ! j = items" if "j < length cs" for j
    using closed_delivered [OF inv3 f3(1)] f3 that by simp
  have "close_calls d3 = replicate (length cs) 1"
    using each lens by (simp add: list_eq_iff_nth_eq)
  moreover have "\<forall>j \<in> J. j < length cs \<longrightarrow> \<alpha> (cstates d3 ! j) = items \<and>
      (\<exists>s. P s \<and> Q s \<and> cstates d3 ! j = fst (close_op ops s))"
    using f3(4) f3(3) each by (simp add: tracks_def)
  ultimately show ?thesis using n0 r1 p2 c3 f3(1,5) lens by (simp add: script_main_def)
qed

end
