(* ===== verification/Main_Example.thy ===== *)
theory Main_Example
  imports Consumer_Interface
begin

text \<open>
  The script \<open>src/main.py\<close>.  \<open>MyConsumer\<close> prints every batch it is given,
  prefixed with its name; the model keeps the lines it printed, as pairs of the
  name and the batch.  It inherits \<open>close\<close> from the package's \<open>Consumer\<close>
  base class, which does nothing.  \<open>main()\<close> builds a disruptor of size
  \<open>1024 * 8\<close>, registers two consumers, produces the integers \<open>0 \<dots> n - 1\<close>
  one per \<open>produce\<close> call (the script has \<open>n = 10_000\<close>) and closes the bus.
  The \<open>print\<close> of each produced number and the \<open>time.sleep\<close> calls have no
  effect on the bus and are left out; \<open>@measure_performance\<close> is modelled in no
  theory (it only times the call).
\<close>

record 'a my_consumer =
  my_name :: string
  printed :: "(string \<times> 'a list) list"

definition my_consumer_new :: "string \<Rightarrow> 'a my_consumer" where
  "my_consumer_new nm = \<lparr>my_name = nm, printed = []\<rparr>"

definition my_consume :: "'a my_consumer \<Rightarrow> 'a list \<Rightarrow> ('a my_consumer \<times> 'e option) option" where
  "my_consume s elements = Some (s\<lparr>printed := printed s @ [(my_name s, elements)]\<rparr>, None)"

definition my_ops :: "('a my_consumer, 'a, 'e) consumer" where
  "my_ops = \<lparr>consume_op = my_consume, close_op = (\<lambda>s. (s, None))\<rparr>"

definition main_run :: "nat \<Rightarrow> (error + (int, int my_consumer, unit) disruptor) option" where
  "main_run n =
     script_main ''Example'' (1024 * 8)
       [my_consumer_new ''Consumer One'', my_consumer_new ''Consumer Two''] my_ops (map int [0..<n])"

abbreviation printed_items :: "'a my_consumer \<Rightarrow> 'a list" where
  "printed_items s \<equiv> concat (map snd (printed s))"

section \<open>MyConsumer meets the consumer interface\<close>

lemma my_ops_tracks: "consumer_tracks (\<lambda>_. True) (\<lambda>_. True) printed_items my_ops"
  by (simp add: consumer_tracks_def my_ops_def my_consume_def)

lemma my_ops_return: "callbacks_return (\<lambda>_. True) my_ops"
  by (simp add: callbacks_return_def my_ops_def my_consume_def)

section \<open>The run of main()\<close>

text \<open>
  C1: main() of main.py returns normally for any number \<open>n\<close> of produced
  integers; afterwards the bus is closed, and each of the two consumers printed
  batches whose concatenation is \<open>0, 1, \<dots>, n - 1\<close> in order, and its close
  callback ran once (spec scenario S2 with the script's own consumers).
\<close>

theorem main_run_delivers:
  "\<exists>d. main_run n = Some (Inr d) \<and> phase d = Closed \<and>
       map printed_items (cstates d) = [map int [0..<n], map int [0..<n]] \<and> close_calls d = [1, 1]"
proof -
  let ?cs = "[my_consumer_new ''Consumer One'', my_consumer_new ''Consumer Two''] :: int my_consumer list"
  have cs: "\<forall>c \<in> set ?cs. True" by simp
  have q: "\<forall>j \<in> UNIV. j < length ?cs \<longrightarrow> True \<and> printed_items (?cs ! j) = []"
    by (simp add: my_consumer_new_def less_Suc_eq nth_Cons')
  have sz: "(1::int) < 1024 * 8" by simp
  obtain d :: "(int, int my_consumer, unit) disruptor"
    where run: "script_main ''Example'' (1024 * 8) ?cs my_ops (map int [0..<n]) = Some (Inr d)"
    and ph: "phase d = Closed" and len: "length (cstates d) = length ?cs"
    and cc: "close_calls d = replicate (length ?cs) 1"
    and each: "\<forall>j \<in> UNIV. j < length ?cs \<longrightarrow> printed_items (cstates d ! j) = map int [0..<n]"
    using script_main_run [OF my_ops_return my_ops_tracks cs q sz, where nm = "''Example''"
        and items = "map int [0..<n]"] by blast
  obtain a b where ab: "cstates d = [a, b]"
    using len by (auto simp: length_Suc_conv)
  have "map printed_items (cstates d) = [map int [0..<n], map int [0..<n]]"
    using each ab by auto
  then show ?thesis using run ph cc unfolding main_run_def by (simp add: numeral_2_eq_2)
qed

end
