(* ===== verification/Batch_Json.thy ===== *)
theory Batch_Json
  imports Consumer_Interface
begin

text \<open>
  \<open>BatchJsonConsumer\<close> of \<open>src/batch_json_example.py\<close>.  The consumer keeps a
  buffer of received items; \<open>consume\<close> appends the batch the bus delivers and
  then, while the buffer holds at least \<open>batch_size\<close> items, cuts the first
  \<open>batch_size\<close> off and writes them as one Parquet file (\<open>_process_batch\<close>).
  \<open>close\<close> writes what is left.  Nothing is caught: an exception of
  \<open>_process_batch\<close> leaves \<open>consume\<close> (and reaches the bus's error handler)
  with the buffer already cut.

  The state record has the fields of the object.  Two more fields are the
  outside world: \<open>bj_world k\<close> is the answer polars and the file system give to
  this consumer's \<open>k\<close>-th \<open>_process_batch\<close> call, and \<open>bj_calls\<close> counts the calls
  so far.  A written file is recorded with the counter in its name
  (\<open>batch_NNNN.parquet\<close>) and its rows; directories, timing and printing are not
  modelled.  The loop of \<open>consume\<close> is a \<open>partial_function\<close> in the option
  monad: \<open>batch_size\<close> is an unchecked Python integer, and whether the loop ends
  is a theorem (\<open>bj_drain_terminates\<close>).
\<close>

section \<open>State and operations\<close>

record 'a bj_state =
  bj_name :: string
  bj_batch_size :: int
  bj_processed_count :: int
  bj_batch_buffer :: "'a list"
  bj_file_counter :: int
  bj_files :: "(int \<times> 'a list) list"
  bj_world :: "nat \<Rightarrow> io"
  bj_calls :: nat

definition bj_new :: "string \<Rightarrow> int \<Rightarrow> (nat \<Rightarrow> io) \<Rightarrow> 'a bj_state" where
  "bj_new nm bs w = \<lparr>bj_name = nm, bj_batch_size = bs, bj_processed_count = 0,
     bj_batch_buffer = [], bj_file_counter = 0, bj_files = [], bj_world = w, bj_calls = 0\<rparr>"

definition bj_process_batch :: "'a list \<Rightarrow> 'a bj_state \<Rightarrow> 'a bj_state \<times> exn option" where
  "bj_process_batch batch s =
     (let answer = bj_world s (bj_calls s);
          s = s\<lparr>bj_calls := Suc (bj_calls s)\<rparr> in
      if batch = [] \<or> answer = Io_Frame_Error then (s, Some Frame_Error)
      else
        let s = s\<lparr>bj_file_counter := bj_file_counter s + 1\<rparr> in
        if answer = Io_Write_Error then (s, Some Write_Error)
        else (s\<lparr>bj_files := bj_files s @ [(bj_file_counter s, batch)],
                bj_processed_count := bj_processed_count s + int (length batch)\<rparr>, None))"

partial_function (option) bj_drain :: "'a bj_state \<Rightarrow> ('a bj_state \<times> exn option) option" where
  "bj_drain s =
     (if bj_batch_size s \<le> int (length (bj_batch_buffer s)) then
        (case bj_process_batch (py_take (bj_batch_size s) (bj_batch_buffer s))
                (s\<lparr>bj_batch_buffer := py_drop (bj_batch_size s) (bj_batch_buffer s)\<rparr>) of
           (s', Some e) \<Rightarrow> Some (s', Some e)
         | (s', None) \<Rightarrow> bj_drain s')
      else Some (s, None))"

declare bj_drain.simps [code]

definition bj_consume :: "'a bj_state \<Rightarrow> 'a list \<Rightarrow> ('a bj_state \<times> exn option) option" where
  "bj_consume s elements = bj_drain (s\<lparr>bj_batch_buffer := bj_batch_buffer s @ elements\<rparr>)"

definition bj_close :: "'a bj_state \<Rightarrow> 'a bj_state \<times> exn option" where
  "bj_close s =
     (if bj_batch_buffer s \<noteq> [] then
        (case bj_process_batch (bj_batch_buffer s) s of
           (s', Some e) \<Rightarrow> (s', Some e)
         | (s', None) \<Rightarrow> (s'\<lparr>bj_batch_buffer := []\<rparr>, None))
      else (s, None))"

definition bj_ops :: "('a bj_state, 'a, exn) consumer" where
  "bj_ops = \<lparr>consume_op = bj_consume, close_op = bj_close\<rparr>"

text \<open>
  What the consumer has accounted for: the rows of the files it wrote, in
  order, then its buffer.  \<open>bj_world_ok\<close>: every call from now on succeeds.
\<close>

definition bj_accounted :: "'a bj_state \<Rightarrow> 'a list" where
  "bj_accounted s = concat (map snd (bj_files s)) @ bj_batch_buffer s"

definition bj_world_ok :: "'a bj_state \<Rightarrow> bool" where
  "bj_world_ok s \<longleftrightarrow> (\<forall>k \<ge> bj_calls s. bj_world s k = Io_Ok)"

section \<open>Lemmas on one batch\<close>

lemma bj_process_batch_ok:
  "bj_process_batch batch s = (s', None) \<longleftrightarrow>
   batch \<noteq> [] \<and> bj_world s (bj_calls s) = Io_Ok \<and>
   s' = s\<lparr>bj_calls := Suc (bj_calls s), bj_file_counter := bj_file_counter s + 1,
          bj_files := bj_files s @ [(bj_file_counter s + 1, batch)],
          bj_processed_count := bj_processed_count s + int (length batch)\<rparr>"
  by (cases "bj_world s (bj_calls s)") (auto simp: bj_process_batch_def Let_def)

lemma bj_process_batch_buffer [simp]:
  "bj_batch_buffer (fst (bj_process_batch batch s)) = bj_batch_buffer s"
  "bj_batch_size (fst (bj_process_batch batch s)) = bj_batch_size s"
  "bj_world (fst (bj_process_batch batch s)) = bj_world s"
  by (simp_all add: bj_process_batch_def Let_def)

lemma bj_process_batch_raise:
  "bj_process_batch batch s = (s', Some e) \<Longrightarrow>
   bj_files s' = bj_files s \<and> bj_batch_buffer s' = bj_batch_buffer s \<and>
   bj_batch_size s' = bj_batch_size s \<and> bj_file_counter s \<le> bj_file_counter s'"
  by (auto simp: bj_process_batch_def Let_def split: if_splits)

text \<open>
  Files are named after the counter, which only grows; the invariant says the
  names of the written files increase and never pass the counter, so no file
  is written twice.
\<close>

definition bj_files_wf :: "'a bj_state \<Rightarrow> bool" where
  "bj_files_wf s \<longleftrightarrow> sorted_wrt (<) (map fst (bj_files s)) \<and>
     (\<forall>f \<in> set (bj_files s). 0 < fst f \<and> fst f \<le> bj_file_counter s) \<and> 0 \<le> bj_file_counter s"

lemma bj_files_wf_process_batch:
  "bj_files_wf s \<Longrightarrow> bj_files_wf (fst (bj_process_batch batch s))"
  by (auto simp: bj_files_wf_def bj_process_batch_def Let_def sorted_wrt_append)

section \<open>Termination of the loop\<close>

text \<open>
  Every pass of the loop that goes on has written a non-empty batch and cut it
  from the buffer, so the buffer gets shorter, whatever the batch size.
\<close>

lemma bj_drain_step_shorter:
  assumes "bj_batch_size s \<le> int (length (bj_batch_buffer s))"
    and "bj_process_batch (py_take (bj_batch_size s) (bj_batch_buffer s))
           (s\<lparr>bj_batch_buffer := py_drop (bj_batch_size s) (bj_batch_buffer s)\<rparr>) = (s', None)"
  shows "length (bj_batch_buffer s') < length (bj_batch_buffer s)"
proof -
  let ?b = "bj_batch_buffer s" and ?n = "bj_batch_size s"
  have ne: "py_take ?n ?b \<noteq> []" using assms(2) by (simp add: bj_process_batch_ok)
  have "bj_batch_buffer s' = py_drop ?n ?b"
    using arg_cong [OF assms(2), of "\<lambda>r. bj_batch_buffer (fst r)"] by simp
  moreover have "length (py_drop ?n ?b) < length ?b"
    using ne py_take_drop [of ?n ?b] by (metis append_self_conv2 length_append less_add_same_cancel2 length_greater_0_conv)
  ultimately show ?thesis by simp
qed

lemma bj_drain_stop:
  "\<not> bj_batch_size s \<le> int (length (bj_batch_buffer s)) \<Longrightarrow> bj_drain s = Some (s, None)"
  by (subst bj_drain.simps) simp

lemma bj_drain_raise:
  "bj_batch_size s \<le> int (length (bj_batch_buffer s)) \<Longrightarrow>
   bj_process_batch (py_take (bj_batch_size s) (bj_batch_buffer s))
     (s\<lparr>bj_batch_buffer := py_drop (bj_batch_size s) (bj_batch_buffer s)\<rparr>) = (s', Some e) \<Longrightarrow>
   bj_drain s = Some (s', Some e)"
  by (subst bj_drain.simps) simp

lemma bj_drain_next:
  "bj_batch_size s \<le> int (length (bj_batch_buffer s)) \<Longrightarrow>
   bj_process_batch (py_take (bj_batch_size s) (bj_batch_buffer s))
     (s\<lparr>bj_batch_buffer := py_drop (bj_batch_size s) (bj_batch_buffer s)\<rparr>) = (s', None) \<Longrightarrow>
   bj_drain s = bj_drain s'"
  by (subst bj_drain.simps) simp

lemmas bj_drain_unfold = bj_drain_stop bj_drain_raise bj_drain_next

lemma bj_drain_terminates: "\<exists>r. bj_drain s = Some r"
proof (induction "length (bj_batch_buffer s)" arbitrary: s rule: less_induct)
  case less
  show ?case
  proof (cases "bj_batch_size s \<le> int (length (bj_batch_buffer s))")
    case False
    then show ?thesis by (simp add: bj_drain_stop)
  next
    case True
    obtain s' r where pb: "bj_process_batch (py_take (bj_batch_size s) (bj_batch_buffer s))
       (s\<lparr>bj_batch_buffer := py_drop (bj_batch_size s) (bj_batch_buffer s)\<rparr>) = (s', r)"
      by fastforce
    show ?thesis
    proof (cases r)
      case None
      then have "length (bj_batch_buffer s') < length (bj_batch_buffer s)"
        using True pb by (intro bj_drain_step_shorter) simp_all
      then show ?thesis using less True pb None by (simp add: bj_drain_next)
    next
      case (Some e)
      then show ?thesis using True pb by (simp add: bj_drain_raise)
    qed
  qed
qed

text \<open>C22: \<open>BatchJsonConsumer.consume\<close> returns, whatever its batch size and whatever the outside world answers.\<close>

theorem bj_consume_returns: "\<exists>r. bj_consume s elements = Some r"
  unfolding bj_consume_def by (rule bj_drain_terminates)

section \<open>The loop when every write succeeds\<close>

lemma bj_drain_ok:
  assumes "bj_world_ok s" "0 < bj_batch_size s"
  shows "\<exists>s' new. bj_drain s = Some (s', None) \<and> bj_files s' = bj_files s @ new \<and>
           bj_accounted s' = bj_accounted s \<and> length (bj_batch_buffer s') < nat (bj_batch_size s) \<and>
           (\<forall>f \<in> set new. length (snd f) = nat (bj_batch_size s)) \<and>
           bj_processed_count s' = bj_processed_count s + int (length (concat (map snd new))) \<and>
           bj_world_ok s' \<and> bj_batch_size s' = bj_batch_size s"
  using assms
proof (induction "length (bj_batch_buffer s)" arbitrary: s rule: less_induct)
  case less
  let ?n = "bj_batch_size s" and ?b = "bj_batch_buffer s"
  show ?case
  proof (cases "?n \<le> int (length ?b)")
    case False
    then have "length ?b < nat ?n" using less.prems by simp
    then show ?thesis using False less.prems
      by (intro exI [of _ s] exI [of _ "[]"]) (simp add: bj_drain_stop)
  next
    case True
    let ?batch = "take (nat ?n) ?b" and ?s1 = "s\<lparr>bj_batch_buffer := drop (nat ?n) ?b\<rparr>"
    have "bj_batch_buffer s \<noteq> []" using True less.prems(2) by auto
    then have ne: "?batch \<noteq> []" using less.prems(2) by simp
    have w: "bj_world s (bj_calls s) = Io_Ok" using less.prems(1) by (simp add: bj_world_ok_def)
    define s2 where "s2 = ?s1\<lparr>bj_calls := Suc (bj_calls s), bj_file_counter := bj_file_counter s + 1,
        bj_files := bj_files s @ [(bj_file_counter s + 1, ?batch)],
        bj_processed_count := bj_processed_count s + int (length ?batch)\<rparr>"
    have pb: "bj_process_batch ?batch ?s1 = (s2, None)"
      using ne w by (simp add: bj_process_batch_ok s2_def)
    have step: "bj_drain s = bj_drain s2" using True pb less.prems(2) by (simp add: bj_drain_next)
    have shorter: "length (bj_batch_buffer s2) < length ?b" using ne True less.prems(2) by (simp add: s2_def)
    have ok2: "bj_world_ok s2" "0 < bj_batch_size s2"
      using less.prems by (auto simp: bj_world_ok_def s2_def)
    obtain s' new where ih: "bj_drain s2 = Some (s', None)" "bj_files s' = bj_files s2 @ new"
        "bj_accounted s' = bj_accounted s2" "length (bj_batch_buffer s') < nat (bj_batch_size s2)"
        "\<forall>f \<in> set new. length (snd f) = nat (bj_batch_size s2)"
        "bj_processed_count s' = bj_processed_count s2 + int (length (concat (map snd new)))"
        "bj_world_ok s'" "bj_batch_size s' = bj_batch_size s2"
      using less.hyps [OF shorter ok2] by blast
    have acc: "bj_accounted s2 = bj_accounted s"
      by (simp add: bj_accounted_def s2_def append_take_drop_id)
    have len: "length ?batch = nat ?n" using True less.prems(2) by simp
    show ?thesis
      using ih step acc len
      by (intro exI [of _ s'] exI [of _ "(bj_file_counter s + 1, ?batch) # new"]) (simp add: s2_def)
  qed
qed

text \<open>
  C10: when every write succeeds and the batch size is positive,
  \<open>BatchJsonConsumer.consume\<close> returns without raising, every item it has
  received is in a written file or still in its buffer, in the order received,
  each file it writes has exactly \<open>batch_size\<close> rows, \<open>processed_count\<close> grows by
  the rows written, and fewer than \<open>batch_size\<close> items stay buffered.
\<close>

theorem bj_consume_ok:
  assumes "bj_world_ok s" "0 < bj_batch_size s"
  shows "\<exists>s' new. bj_consume s elements = Some (s', None) \<and> bj_files s' = bj_files s @ new \<and>
           bj_accounted s' = bj_accounted s @ elements \<and>
           (\<forall>f \<in> set new. length (snd f) = nat (bj_batch_size s)) \<and>
           bj_processed_count s' = bj_processed_count s + int (length (concat (map snd new))) \<and>
           length (bj_batch_buffer s') < nat (bj_batch_size s)"
proof -
  let ?s0 = "s\<lparr>bj_batch_buffer := bj_batch_buffer s @ elements\<rparr>"
  have "bj_world_ok ?s0" "0 < bj_batch_size ?s0" using assms by (simp_all add: bj_world_ok_def)
  from bj_drain_ok [OF this] obtain s' new where "bj_drain ?s0 = Some (s', None)"
    "bj_files s' = bj_files s @ new" "bj_accounted s' = bj_accounted ?s0"
    "length (bj_batch_buffer s') < nat (bj_batch_size s)"
    "\<forall>f \<in> set new. length (snd f) = nat (bj_batch_size s)"
    "bj_processed_count s' = bj_processed_count s + int (length (concat (map snd new)))"
    by auto
  then show ?thesis by (auto simp: bj_consume_def bj_accounted_def)
qed

text \<open>
  C21: when every write succeeds, \<open>BatchJsonConsumer.close\<close> writes what is left in
  the buffer as a last file and empties the buffer: afterwards the written files
  hold, in order, every item the consumer has accounted for.
\<close>

theorem bj_close_flushes:
  assumes "bj_world_ok s"
  shows "\<exists>s'. bj_close s = (s', None) \<and> bj_batch_buffer s' = [] \<and>
              concat (map snd (bj_files s')) = bj_accounted s"
proof (cases "bj_batch_buffer s = []")
  case True
  then show ?thesis by (simp add: bj_close_def bj_accounted_def)
next
  case False
  have "bj_world s (bj_calls s) = Io_Ok" using assms by (simp add: bj_world_ok_def)
  then show ?thesis using False
    by (auto simp: bj_close_def bj_accounted_def bj_process_batch_def Let_def)
qed

section \<open>A raised write loses a batch\<close>

lemma bj_drain_raise_loses:
  assumes "bj_drain s = Some (s', Some e)" "0 < bj_batch_size s"
  shows "\<exists>lost. length lost = nat (bj_batch_size s) \<and>
           concat (map snd (bj_files s')) @ lost @ bj_batch_buffer s' = bj_accounted s"
  using assms
proof (induction "length (bj_batch_buffer s)" arbitrary: s rule: less_induct)
  case less
  let ?n = "bj_batch_size s" and ?b = "bj_batch_buffer s"
  have go: "?n \<le> int (length ?b)"
    using less.prems(1) by (cases "?n \<le> int (length ?b)") (simp_all add: bj_drain_stop)
  let ?batch = "take (nat ?n) ?b" and ?s1 = "s\<lparr>bj_batch_buffer := drop (nat ?n) ?b\<rparr>"
  obtain s2 r where pb: "bj_process_batch ?batch ?s1 = (s2, r)" by fastforce
  show ?case
  proof (cases r)
    case (Some e')
    then have "s' = s2" using less.prems go pb by (simp add: bj_drain_raise)
    moreover have "bj_files s2 = bj_files s" "bj_batch_buffer s2 = drop (nat ?n) ?b"
      using bj_process_batch_raise [OF pb [unfolded Some]] by simp_all
    ultimately show ?thesis using go less.prems(2)
      by (intro exI [of _ ?batch]) (simp add: bj_accounted_def)
  next
    case None
    then have step: "bj_drain s = bj_drain s2" using go pb less.prems(2) by (simp add: bj_drain_next)
    have ok: "bj_process_batch ?batch ?s1 = (s2, None)" using pb None by simp
    then have shorter: "length (bj_batch_buffer s2) < length ?b"
      using bj_drain_step_shorter [of s s2] go less.prems(2) by simp
    have s2: "bj_batch_size s2 = ?n" "bj_accounted s2 = bj_accounted s"
      using ok by (auto simp: bj_process_batch_ok bj_accounted_def)
    show ?thesis using less.hyps [OF shorter] less.prems step s2 by simp
  qed
qed

text \<open>
  C11: \<open>BatchJsonConsumer.consume\<close> cuts a batch off its buffer before it writes
  it.  When the write (or the DataFrame conversion) raises, \<open>consume\<close> raises
  and a whole batch of \<open>batch_size\<close> items is lost: the items the consumer had
  are the rows of its files, then the lost batch, then its buffer.  The bus's
  error handler receives the \<open>elements\<close> of the call, not the lost batch.
\<close>

theorem bj_consume_raise_loses_batch:
  assumes "0 < bj_batch_size s" "bj_consume s elements = Some (s', Some e)"
  shows "\<exists>lost. length lost = nat (bj_batch_size s) \<and>
           concat (map snd (bj_files s')) @ lost @ bj_batch_buffer s' = bj_accounted s @ elements"
  using bj_drain_raise_loses [of "s\<lparr>bj_batch_buffer := bj_batch_buffer s @ elements\<rparr>" s' e] assms
  by (simp add: bj_consume_def bj_accounted_def)

section \<open>File names are never reused\<close>

lemma bj_files_wf_drain:
  "bj_drain s = Some (s', r) \<Longrightarrow> bj_files_wf s \<Longrightarrow> bj_files_wf s'"
proof (induction "length (bj_batch_buffer s)" arbitrary: s rule: less_induct)
  case less
  let ?n = "bj_batch_size s" and ?b = "bj_batch_buffer s"
  show ?case
  proof (cases "?n \<le> int (length ?b)")
    case False
    then show ?thesis using less.prems by (simp add: bj_drain_stop)
  next
    case True
    let ?s1 = "s\<lparr>bj_batch_buffer := py_drop ?n ?b\<rparr>"
    obtain s2 r' where pb: "bj_process_batch (py_take ?n ?b) ?s1 = (s2, r')" by fastforce
    have wf2: "bj_files_wf s2"
      using bj_files_wf_process_batch [of ?s1 "py_take ?n ?b"] less.prems(2) pb
      by (simp add: bj_files_wf_def)
    show ?thesis
    proof (cases r')
      case None
      then show ?thesis
        using less.hyps [OF bj_drain_step_shorter [OF True] _ wf2] less.prems(1) True pb
        by (simp add: bj_drain_next)
    next
      case (Some e)
      then show ?thesis using less.prems(1) True pb wf2 by (simp add: bj_drain_raise)
    qed
  qed
qed

text \<open>
  C16: \<open>consume\<close> and \<open>close\<close> of \<open>BatchJsonConsumer\<close> keep the file names
  (\<open>batch_NNNN.parquet\<close>) strictly increasing and within the counter, whatever
  the outside world answers, so no Parquet file is ever overwritten; a new
  consumer starts in such a state.
\<close>

theorem bj_files_wf_preserved:
  "bj_files_wf (bj_new nm bs w) \<and>
   (bj_files_wf s \<longrightarrow> bj_consume s elements = Some (s', r) \<longrightarrow> bj_files_wf s') \<and>
   (bj_files_wf s \<longrightarrow> bj_files_wf (fst (bj_close s)))"
proof (intro conjI impI)
  show "bj_files_wf (bj_new nm bs w)" by (simp add: bj_files_wf_def bj_new_def)
next
  assume "bj_files_wf s" "bj_consume s elements = Some (s', r)"
  then show "bj_files_wf s'"
    by (intro bj_files_wf_drain [of "s\<lparr>bj_batch_buffer := bj_batch_buffer s @ elements\<rparr>" s' r])
       (simp_all add: bj_consume_def bj_files_wf_def)
next
  assume wf: "bj_files_wf s"
  obtain s1 r1 where pb: "bj_process_batch (bj_batch_buffer s) s = (s1, r1)" by fastforce
  have "bj_files_wf s1" using bj_files_wf_process_batch [OF wf, of "bj_batch_buffer s"] pb by simp
  then show "bj_files_wf (fst (bj_close s))"
    using wf pb by (cases r1) (simp_all add: bj_close_def bj_files_wf_def)
qed

section \<open>Witnesses\<close>

abbreviation bj_demo :: "(nat \<Rightarrow> io) \<Rightarrow> int \<Rightarrow> int bj_state" where
  "bj_demo w bs \<equiv> bj_new ''Consumer-1'' bs w"

theorem bj_consume_ok_witness:
  "\<exists>s'. bj_consume (bj_demo (\<lambda>_. Io_Ok) 2) [1, 2, 3] = Some (s', None) \<and>
        bj_accounted s' = [1, 2, 3] \<and> length (bj_batch_buffer s') < 2"
proof -
  have "bj_world_ok (bj_demo (\<lambda>_. Io_Ok) 2)" "0 < bj_batch_size (bj_demo (\<lambda>_. Io_Ok) 2)"
    by (simp_all add: bj_world_ok_def bj_new_def)
  from bj_consume_ok [OF this, of "[1, 2, 3]"] show ?thesis
    by (auto simp: bj_new_def bj_accounted_def)
qed

theorem bj_close_flushes_witness:
  "\<exists>s'. bj_close ((bj_demo (\<lambda>_. Io_Ok) 2)\<lparr>bj_batch_buffer := [5]\<rparr>) = (s', None) \<and>
        bj_batch_buffer s' = [] \<and> concat (map snd (bj_files s')) = [5]"
proof -
  have "bj_world_ok ((bj_demo (\<lambda>_. Io_Ok) 2)\<lparr>bj_batch_buffer := [5]\<rparr>)"
    by (simp add: bj_world_ok_def bj_new_def)
  from bj_close_flushes [OF this] show ?thesis by (simp add: bj_new_def bj_accounted_def)
qed

theorem bj_consume_raise_loses_batch_witness:
  "bj_consume (bj_demo (\<lambda>_. Io_Write_Error) 1) [7] =
     Some ((bj_demo (\<lambda>_. Io_Write_Error) 1)\<lparr>bj_batch_buffer := [], bj_file_counter := 1, bj_calls := 1\<rparr>,
           Some Write_Error) \<and>
   (\<exists>lost. length lost = 1 \<and>
     concat (map snd (bj_files ((bj_demo (\<lambda>_. Io_Write_Error) 1)\<lparr>bj_batch_buffer := [],
        bj_file_counter := 1, bj_calls := 1\<rparr>))) @ lost = [7])"
proof -
  have ev: "bj_consume (bj_demo (\<lambda>_. Io_Write_Error) 1) [7] =
     Some ((bj_demo (\<lambda>_. Io_Write_Error) 1)\<lparr>bj_batch_buffer := [], bj_file_counter := 1, bj_calls := 1\<rparr>,
           Some Write_Error)"
    by (simp add: bj_consume_def bj_new_def bj_drain.simps bj_process_batch_def)
  from bj_consume_raise_loses_batch [OF _ ev] show ?thesis
    using ev by (simp add: bj_new_def bj_accounted_def)
qed

theorem bj_files_wf_preserved_witness:
  "bj_files_wf ((bj_demo (\<lambda>_. Io_Ok) 2)\<lparr>bj_processed_count := 2, bj_batch_buffer := [3],
      bj_file_counter := 1, bj_files := [(1, [1, 2])], bj_calls := 1\<rparr>)"
proof -
  have ev: "bj_consume (bj_demo (\<lambda>_. Io_Ok) 2) [1, 2, 3] =
     Some ((bj_demo (\<lambda>_. Io_Ok) 2)\<lparr>bj_processed_count := 2, bj_batch_buffer := [3],
      bj_file_counter := 1, bj_files := [(1, [1, 2])], bj_calls := 1\<rparr>, None)"
    by (simp add: bj_consume_def bj_new_def bj_drain.simps bj_process_batch_def)
  from bj_files_wf_preserved [of "''Consumer-1''" 2 "\<lambda>_. Io_Ok" "bj_demo (\<lambda>_. Io_Ok) 2" "[1, 2, 3]"]
  show ?thesis using ev by blast
qed

text \<open>
  C14: The two ways \<open>_process_batch\<close> raises.  A batch that cannot be made
  into a DataFrame (empty, or rejected by \<open>pl.from_dicts\<close>/\<open>unnest\<close>) raises
  before \<open>file_counter += 1\<close>; a batch whose \<open>write_parquet\<close> fails raises
  after it, so the file number is used up with no file behind it and the next
  file written leaves a gap in the numbering.  Neither writes a file or counts
  the batch as processed.
\<close>

theorem bj_process_batch_errors:
  assumes "bj_process_batch batch s = (s', Some e)"
  shows "(e = Write_Error \<and> batch \<noteq> [] \<and> bj_world s (bj_calls s) = Io_Write_Error \<and>
            bj_file_counter s' = bj_file_counter s + 1 \<or>
          e = Frame_Error \<and> (batch = [] \<or> bj_world s (bj_calls s) = Io_Frame_Error) \<and>
            bj_file_counter s' = bj_file_counter s) \<and>
         bj_files s' = bj_files s \<and> bj_processed_count s' = bj_processed_count s \<and>
         bj_batch_buffer s' = bj_batch_buffer s \<and> bj_calls s' = Suc (bj_calls s)"
  using assms
  by (cases "bj_world s (bj_calls s)") (auto simp: bj_process_batch_def Let_def split: if_splits)

theorem bj_process_batch_errors_witness:
  "bj_file_counter (fst (bj_process_batch [7 :: int] (bj_demo (\<lambda>_. Io_Write_Error) 1))) = 1 \<and>
   bj_files (fst (bj_process_batch [7 :: int] (bj_demo (\<lambda>_. Io_Write_Error) 1))) = []"
  using bj_process_batch_errors [of "[7 :: int]" "bj_demo (\<lambda>_. Io_Write_Error) 1"
      "fst (bj_process_batch [7 :: int] (bj_demo (\<lambda>_. Io_Write_Error) 1))" Write_Error]
  by (simp add: bj_process_batch_def bj_new_def)

end
