(* ===== verification/Batch_Json_Main.thy ===== *)
theory Batch_Json_Main
  imports Batch_Json
begin

text \<open>
  \<open>main()\<close> of \<open>src/batch_json_example.py\<close>: a disruptor of size 2048, two
  \<open>BatchJsonConsumer\<close>s with batch size 100, the produced objects one per
  \<open>produce\<close> call, and \<open>close\<close> in the \<open>finally\<close> clause.  The objects come
  from \<open>generate_complex_json()\<close>, which draws them at random; the model takes
  the list of produced objects as a parameter (the script produces 10 000).
  Each consumer has its own outside world.  When every write of a consumer
  succeeds, the consumer meets the interface of \<open>Consumer_Interface\<close> with
  the invariant \<open>bj_ready\<close> and the abstraction \<open>bj_accounted\<close>.
\<close>

definition bj_ready :: "'a bj_state \<Rightarrow> bool" where
  "bj_ready s \<longleftrightarrow> bj_world_ok s \<and> 0 < bj_batch_size s"

definition bj_main_run ::
  "'a list \<Rightarrow> (nat \<Rightarrow> io) \<Rightarrow> (nat \<Rightarrow> io) \<Rightarrow> (error + ('a, 'a bj_state, exn) disruptor) option" where
  "bj_main_run items w1 w2 =
     script_main ''BatchJsonExample'' 2048
       [bj_new ''Consumer-1'' 100 w1, bj_new ''Consumer-2'' 100 w2] bj_ops items"

section \<open>BatchJsonConsumer meets the consumer interface\<close>

lemma bj_consume_ready:
  assumes "bj_ready s"
  shows "\<exists>s'. bj_consume s b = Some (s', None) \<and> bj_ready s' \<and> bj_accounted s' = bj_accounted s @ b"
proof -
  let ?s0 = "s\<lparr>bj_batch_buffer := bj_batch_buffer s @ b\<rparr>"
  have "bj_world_ok ?s0" "0 < bj_batch_size ?s0"
    using assms by (simp_all add: bj_ready_def bj_world_ok_def)
  from bj_drain_ok [OF this] obtain s' where "bj_drain ?s0 = Some (s', None)"
    "bj_accounted s' = bj_accounted ?s0" "bj_world_ok s'" "bj_batch_size s' = bj_batch_size s"
    by auto
  then show ?thesis using assms by (auto simp: bj_consume_def bj_accounted_def bj_ready_def)
qed

lemma bj_close_ready:
  assumes "bj_ready s"
  shows "bj_accounted (fst (bj_close s)) = bj_accounted s \<and> bj_batch_buffer (fst (bj_close s)) = []"
proof (cases "bj_batch_buffer s = []")
  case True
  then show ?thesis by (simp add: bj_close_def)
next
  case False
  have "bj_world s (bj_calls s) = Io_Ok" using assms by (simp add: bj_ready_def bj_world_ok_def)
  then show ?thesis using False
    by (simp add: bj_close_def bj_accounted_def bj_process_batch_def Let_def)
qed

lemma bj_ops_return: "callbacks_return (\<lambda>_. True) bj_ops"
  unfolding callbacks_return_def bj_ops_def bj_consume_def using bj_drain_terminates by fastforce

lemma bj_ops_tracks: "consumer_tracks (\<lambda>_. True) bj_ready bj_accounted bj_ops"
  unfolding consumer_tracks_def
proof (rule conjI; intro allI impI)
  fix s b s' e
  assume r: "bj_ready s" and c: "consume_op bj_ops s b = Some (s', e)"
  obtain s'' where "bj_consume s b = Some (s'', None)" "bj_ready s''" "bj_accounted s'' = bj_accounted s @ b"
    using bj_consume_ready [OF r] by blast
  then show "bj_ready s' \<and> bj_accounted s' = bj_accounted s @ b" using c by (simp add: bj_ops_def)
next
  fix s
  assume "bj_ready s"
  then show "bj_accounted (fst (close_op bj_ops s)) = bj_accounted s"
    using bj_close_ready [of s] by (simp add: bj_ops_def)
qed

section \<open>The run of main()\<close>

lemma bj_main_run_closed:
  "\<exists>d. bj_main_run items w1 w2 = Some (Inr d) \<and> phase d = Closed \<and> close_calls d = [1, 1] \<and>
       length (cstates d) = 2 \<and>
       (\<forall>j < 2. (\<forall>k. ([w1, w2] ! j) k = Io_Ok) \<longrightarrow>
          concat (map snd (bj_files (cstates d ! j))) = items \<and> bj_batch_buffer (cstates d ! j) = [])"
proof -
  let ?cs = "[bj_new ''Consumer-1'' 100 w1 :: 'a bj_state, bj_new ''Consumer-2'' 100 w2]"
  let ?J = "{j. j < 2 \<and> (\<forall>k. ([w1, w2] ! j) k = Io_Ok)}"
  have cs: "\<forall>c \<in> set ?cs. True" by simp
  have q: "\<forall>j \<in> ?J. j < length ?cs \<longrightarrow> bj_ready (?cs ! j) \<and> bj_accounted (?cs ! j) = []"
    by (auto simp: bj_ready_def bj_world_ok_def bj_new_def bj_accounted_def less_Suc_eq nth_Cons')
  have sz: "(1::int) < 2048" by simp
  obtain d where d: "script_main ''BatchJsonExample'' 2048 ?cs bj_ops items = Some (Inr d)"
    "phase d = Closed" "length (cstates d) = length ?cs" "close_calls d = replicate (length ?cs) 1"
    and each: "\<forall>j \<in> ?J. j < length ?cs \<longrightarrow> bj_accounted (cstates d ! j) = items \<and>
                 (\<exists>s. True \<and> bj_ready s \<and> cstates d ! j = fst (close_op bj_ops s))"
    using script_main_run [OF bj_ops_return bj_ops_tracks cs q sz] by blast
  have "(\<forall>k. ([w1, w2] ! j) k = Io_Ok) \<longrightarrow>
          concat (map snd (bj_files (cstates d ! j))) = items \<and> bj_batch_buffer (cstates d ! j) = []"
    if j: "j < 2" for j
  proof
    assume "\<forall>k. ([w1, w2] ! j) k = Io_Ok"
    then have a: "bj_accounted (cstates d ! j) = items"
      and "\<exists>s. bj_ready s \<and> cstates d ! j = fst (bj_close s)"
      using each j by (auto simp: bj_ops_def)
    then obtain s where "bj_ready s" "cstates d ! j = fst (bj_close s)" by blast
    then have "bj_batch_buffer (cstates d ! j) = []" using bj_close_ready [of s] by simp
    then show "concat (map snd (bj_files (cstates d ! j))) = items \<and> bj_batch_buffer (cstates d ! j) = []"
      using a by (simp add: bj_accounted_def)
  qed
  then show ?thesis using d by (simp add: bj_main_run_def numeral_2_eq_2)
qed

text \<open>
  C2: \<open>main()\<close> of \<open>batch_json_example.py\<close> returns for every list of
  produced objects and whatever the outside world answers; the bus ends
  closed and each consumer was closed once.  A consumer all of whose
  DataFrame conversions and Parquet writes succeed ends with an empty buffer
  and Parquet files holding, in file order, exactly the produced objects in
  the order they were produced, whatever happens to the other consumer
  (error isolation, spec property P6).
\<close>

theorem bj_main_isolation:
  "\<exists>d. bj_main_run items w1 w2 = Some (Inr d) \<and> phase d = Closed \<and> close_calls d = [1, 1] \<and>
       length (cstates d) = 2 \<and>
       (\<forall>j < 2. (\<forall>k. ([w1, w2] ! j) k = Io_Ok) \<longrightarrow>
          concat (map snd (bj_files (cstates d ! j))) = items \<and> bj_batch_buffer (cstates d ! j) = [])"
  by (rule bj_main_run_closed)

text \<open>The first consumer's first Parquet write fails; the second consumer still writes every object.\<close>

theorem bj_main_isolation_witness:
  "\<exists>d. bj_main_run [1, 2, 3 :: int] (\<lambda>k. if k = 0 then Io_Write_Error else Io_Ok) (\<lambda>_. Io_Ok) =
         Some (Inr d) \<and> phase d = Closed \<and> concat (map snd (bj_files (cstates d ! 1))) = [1, 2, 3]"
  using bj_main_isolation [of "[1, 2, 3 :: int]" "\<lambda>k. if k = 0 then Io_Write_Error else Io_Ok" "\<lambda>_. Io_Ok"]
  by (elim exE conjE) (intro exI conjI, assumption+, simp)

end
