(* ===== verification/Fault_Tolerant.thy ===== *)
theory Fault_Tolerant
  imports Complex_Main Consumer_Interface
begin

text \<open>
  \<open>FaultTolerantBatchConsumer\<close> of \<open>src/fault_tolerant_example.py\<close>.  It
  buffers items like \<open>BatchJsonConsumer\<close>, but each batch goes through
  \<open>_process_batch_with_retry\<close>: a failed \<open>_process_batch\<close> is retried up to
  \<open>max_retries\<close> times, and a batch that still fails is counted in
  \<open>error_count\<close> and, with \<open>enable_dlq\<close>, written to the dead-letter queue.
  \<open>_process_batch\<close> fails at random (\<open>random.random() < 0.05\<close>), when the
  DataFrame cannot be built, or when the Parquet write fails (then it takes
  back the increment of \<open>file_counter\<close>); after a write it saves a checkpoint
  file, which a new consumer loads in \<open>__init__\<close>.

  The outside world is an input, as for \<open>BatchJsonConsumer\<close>: \<open>ft_world\<close>
  answers the \<open>k\<close>-th \<open>_process_batch\<close> call (the random draw, the
  DataFrame/Parquet outcome, whether the checkpoint write succeeds, the
  timestamp it records, and whether a failed write had already truncated the
  file) and the \<open>k\<close>-th DLQ write.  A checkpoint file is missing, unreadable
  (not valid JSON, or an I/O error), or a JSON document (\<open>jval\<close>: every JSON
  value, an object as the list of its members in file order).  \<open>json.load\<close>
  keeps the last of duplicate keys, and \<open>checkpoint.get\<close> on a document that
  is not an object raises \<open>AttributeError\<close> inside the \<open>try\<close>, which leaves
  the counters at 0.  A Python \<open>bool\<close> is an \<open>int\<close>, so a \<open>true\<close> counter is 1.
  A counter that is a float, string, \<open>null\<close>, array or object is loaded
  unchecked into the integer field, a Python state the model does not
  represent, so such a load gives \<^term>\<open>None\<close>.  The exception text stored
  in a DLQ entry is the exception itself.

  Not modelled: logging, directory creation, and \<open>time.sleep\<close>, so
  \<open>retry_delay\<close> is not a parameter of \<open>ft_new\<close>.  The model assumes the
  back-off \<open>time.sleep(retry_delay * 2 ** retry_count)\<close> returns, which holds
  for a non-negative delay of a sensible size such as the scripts' 0.5; a
  negative delay makes it raise \<open>ValueError\<close> out of the \<open>except\<close> block of
  \<open>_process_batch_with_retry\<close>.  The recursion of the retries is taken
  without Python's recursion limit (about 1000 frames, far above the scripts'
  \<open>max_retries = 3\<close>), and two DLQ files written in the same second with the
  same random suffix, which would overwrite each other, are kept apart.
\<close>

section \<open>Data\<close>

datatype jval = JInt int | JFloat real | JStr string | JBool bool | JNull
  | JList "jval list" | JObj "(string \<times> jval) list"

datatype ckpt_file = No_File | Unreadable | Json_Doc jval

abbreviation Json_Obj :: "(string \<times> jval) list \<Rightarrow> ckpt_file" where
  "Json_Obj obj \<equiv> Json_Doc (JObj obj)"

record ft_world =
  sim_fail :: "nat \<Rightarrow> bool"
  frame_io :: "nat \<Rightarrow> io"
  ckpt_write_ok :: "nat \<Rightarrow> bool"
  ckpt_truncated :: "nat \<Rightarrow> bool"
  clock :: "nat \<Rightarrow> string"
  dlq_write_ok :: "nat \<Rightarrow> bool"

record 'a ft_state =
  ft_name :: string
  ft_batch_size :: int
  ft_processed_count :: int
  ft_error_count :: int
  ft_retry_count :: int
  ft_batch_buffer :: "'a list"
  ft_file_counter :: int
  ft_max_retries :: int
  ft_enable_dlq :: bool
  ft_files :: "(int \<times> 'a list) list"
  ft_checkpoint :: ckpt_file
  ft_dlq :: "(exn \<times> 'a list) list"
  ft_env :: ft_world
  ft_calls :: nat
  ft_dlq_calls :: nat

section \<open>Checkpoints\<close>

text \<open>
  \<open>checkpoint.get(key, 0)\<close> for a counter of the dict \<open>json.load\<close> built:
  the last member with the key counts; \<^term>\<open>None\<close> for a value that is
  neither an integer nor a bool.
\<close>

definition json_get_int :: "(string \<times> jval) list \<Rightarrow> string \<Rightarrow> int option" where
  "json_get_int obj k =
     (case map_of (rev obj) k of
        None \<Rightarrow> Some 0
      | Some (JInt n) \<Rightarrow> Some n
      | Some (JBool b) \<Rightarrow> Some (of_bool b)
      | Some _ \<Rightarrow> None)"

definition ft_load_checkpoint :: "'a ft_state \<Rightarrow> 'a ft_state option" where
  "ft_load_checkpoint s =
     (case ft_checkpoint s of
        No_File \<Rightarrow> Some s
      | Unreadable \<Rightarrow> Some s
      | Json_Doc (JObj obj) \<Rightarrow>
          (case (json_get_int obj ''last_batch_number'', json_get_int obj ''processed_count'') of
             (Some fc, Some pc) \<Rightarrow> Some (s\<lparr>ft_file_counter := fc, ft_processed_count := pc\<rparr>)
           | _ \<Rightarrow> None)
      | Json_Doc _ \<Rightarrow> Some s)"

definition ft_save_checkpoint :: "nat \<Rightarrow> 'a ft_state \<Rightarrow> 'a ft_state" where
  "ft_save_checkpoint k s =
     (if ckpt_write_ok (ft_env s) k
      then s\<lparr>ft_checkpoint := Json_Obj [(''last_batch_number'', JInt (ft_file_counter s)),
                                       (''processed_count'', JInt (ft_processed_count s)),
                                       (''timestamp'', JStr (clock (ft_env s) k))]\<rparr>
      else if ckpt_truncated (ft_env s) k then s\<lparr>ft_checkpoint := Unreadable\<rparr>
      else s)"

text \<open>\<open>__init__\<close>: the fields, then \<open>_load_checkpoint()\<close> of the file found on disk.\<close>

definition ft_new ::
  "string \<Rightarrow> int \<Rightarrow> int \<Rightarrow> bool \<Rightarrow> ckpt_file \<Rightarrow> ft_world \<Rightarrow> 'a ft_state option" where
  "ft_new nm bs retries dlq file w =
     ft_load_checkpoint
       \<lparr>ft_name = nm, ft_batch_size = bs, ft_processed_count = 0, ft_error_count = 0,
        ft_retry_count = 0, ft_batch_buffer = [], ft_file_counter = 0, ft_max_retries = retries,
        ft_enable_dlq = dlq, ft_files = [], ft_checkpoint = file, ft_dlq = [], ft_env = w,
        ft_calls = 0, ft_dlq_calls = 0\<rparr>"

lemma ft_new_Some:
  assumes "ft_new nm bs retries dlq ckpt w = Some s0"
  shows "ft_name s0 = nm \<and> ft_batch_size s0 = bs \<and> ft_error_count s0 = 0 \<and> ft_retry_count s0 = 0 \<and>
         ft_batch_buffer s0 = [] \<and> ft_max_retries s0 = retries \<and> ft_enable_dlq s0 = dlq \<and>
         ft_files s0 = [] \<and> ft_checkpoint s0 = ckpt \<and> ft_dlq s0 = [] \<and> ft_env s0 = w \<and>
         ft_calls s0 = 0 \<and> ft_dlq_calls s0 = 0"
  using assms by (auto simp: ft_new_def ft_load_checkpoint_def split: ckpt_file.splits jval.splits option.splits)

section \<open>Processing one batch\<close>

definition ft_process_batch :: "'a list \<Rightarrow> 'a ft_state \<Rightarrow> 'a ft_state \<times> exn option" where
  "ft_process_batch batch s =
     (let k = ft_calls s; s = s\<lparr>ft_calls := Suc k\<rparr> in
      if sim_fail (ft_env s) k then (s, Some Simulated_Error)
      else if batch = [] \<or> frame_io (ft_env s) k = Io_Frame_Error then (s, Some Frame_Error)
      else
        let s = s\<lparr>ft_file_counter := ft_file_counter s + 1\<rparr> in
        if frame_io (ft_env s) k = Io_Write_Error
        then (s\<lparr>ft_file_counter := ft_file_counter s - 1\<rparr>, Some Write_Error)
        else
          let s = s\<lparr>ft_files := ft_files s @ [(ft_file_counter s, batch)],
                    ft_processed_count := ft_processed_count s + int (length batch)\<rparr>
          in (ft_save_checkpoint k s, None))"

definition ft_send_to_dlq :: "'a list \<Rightarrow> exn \<Rightarrow> 'a ft_state \<Rightarrow> 'a ft_state" where
  "ft_send_to_dlq batch e s =
     (let k = ft_dlq_calls s; s = s\<lparr>ft_dlq_calls := Suc k\<rparr> in
      if dlq_write_ok (ft_env s) k then s\<lparr>ft_dlq := ft_dlq s @ [(e, batch)]\<rparr> else s)"

lemma ft_process_batch_fields [simp]:
  "ft_max_retries (fst (ft_process_batch batch s)) = ft_max_retries s"
  "ft_batch_size (fst (ft_process_batch batch s)) = ft_batch_size s"
  "ft_batch_buffer (fst (ft_process_batch batch s)) = ft_batch_buffer s"
  "ft_enable_dlq (fst (ft_process_batch batch s)) = ft_enable_dlq s"
  "ft_env (fst (ft_process_batch batch s)) = ft_env s"
  by (simp_all add: ft_process_batch_def ft_save_checkpoint_def Let_def)

lemma ft_process_batch_max_retries:
  "(s1, r) = ft_process_batch batch s \<Longrightarrow> ft_max_retries s1 = ft_max_retries s"
  by (metis ft_process_batch_fields(1) fst_conv)

text \<open>
  \<open>_process_batch_with_retry(batch, retry_count)\<close>; \<open>r\<close> is the argument
  \<open>retry_count\<close>, not the field of the same name.  The recursion ends because
  \<open>max_retries - r\<close> decreases.
\<close>

function ft_retry :: "'a list \<Rightarrow> int \<Rightarrow> 'a ft_state \<Rightarrow> 'a ft_state" where
  "ft_retry batch r s =
     (case ft_process_batch batch s of
        (s1, None) \<Rightarrow> s1
      | (s1, Some e) \<Rightarrow>
          if r < ft_max_retries s1
          then ft_retry batch (r + 1) (s1\<lparr>ft_retry_count := ft_retry_count s1 + 1\<rparr>)
          else
            let s2 = s1\<lparr>ft_error_count := ft_error_count s1 + 1\<rparr> in
            if ft_enable_dlq s2 then ft_send_to_dlq batch e s2 else s2)"
  by pat_completeness auto
termination
  by (relation "measure (\<lambda>(b, r, s). nat (ft_max_retries s - r))")
     (auto dest: ft_process_batch_max_retries)

section \<open>consume and close\<close>

text \<open>
  The \<open>while\<close> loop of \<open>consume\<close>.  \<open>_process_batch_with_retry\<close> catches every
  exception \<open>_process_batch\<close> raises, so under the assumption above on
  \<open>time.sleep\<close> nothing reaches the \<open>except\<close> clause of \<open>consume\<close>: the
  model's \<open>ft_retry\<close> has no error result, \<open>consume\<close> never raises, and the
  clause (\<open>error_count += 1\<close> on a critical error) is not reached.
\<close>

partial_function (option) ft_drain :: "'a ft_state \<Rightarrow> 'a ft_state option" where
  "ft_drain s =
     (if ft_batch_size s \<le> int (length (ft_batch_buffer s))
      then ft_drain (ft_retry (py_take (ft_batch_size s) (ft_batch_buffer s)) 0
                       (s\<lparr>ft_batch_buffer := py_drop (ft_batch_size s) (ft_batch_buffer s)\<rparr>))
      else Some s)"

declare ft_drain.simps [code]

definition ft_consume :: "'a ft_state \<Rightarrow> 'a list \<Rightarrow> ('a ft_state \<times> exn option) option" where
  "ft_consume s elements =
     map_option (\<lambda>s'. (s', None)) (ft_drain (s\<lparr>ft_batch_buffer := ft_batch_buffer s @ elements\<rparr>))"

definition ft_close :: "'a ft_state \<Rightarrow> 'a ft_state" where
  "ft_close s =
     (if ft_batch_buffer s \<noteq> [] then (ft_retry (ft_batch_buffer s) 0 s)\<lparr>ft_batch_buffer := []\<rparr> else s)"

definition ft_ops :: "('a ft_state, 'a, exn) consumer" where
  "ft_ops = \<lparr>consume_op = ft_consume, close_op = (\<lambda>s. (ft_close s, None))\<rparr>"

section \<open>One attempt\<close>

lemma ft_process_batch_result:
  assumes "ft_process_batch batch s = (s1, res)"
  shows "ft_calls s1 = Suc (ft_calls s) \<and> ft_dlq_calls s1 = ft_dlq_calls s \<and> ft_dlq s1 = ft_dlq s \<and>
    ft_error_count s1 = ft_error_count s \<and> ft_retry_count s1 = ft_retry_count s \<and>
    ft_max_retries s1 = ft_max_retries s \<and> ft_enable_dlq s1 = ft_enable_dlq s \<and>
    ft_env s1 = ft_env s \<and> ft_batch_size s1 = ft_batch_size s \<and> ft_batch_buffer s1 = ft_batch_buffer s \<and>
    (case res of
       None \<Rightarrow> ft_files s1 = ft_files s @ [(ft_file_counter s + 1, batch)] \<and>
               ft_file_counter s1 = ft_file_counter s + 1 \<and>
               ft_processed_count s1 = ft_processed_count s + int (length batch) \<and>
               \<not> sim_fail (ft_env s) (ft_calls s) \<and> batch \<noteq> [] \<and> frame_io (ft_env s) (ft_calls s) = Io_Ok
     | Some e \<Rightarrow> ft_files s1 = ft_files s \<and> ft_file_counter s1 = ft_file_counter s \<and>
               ft_processed_count s1 = ft_processed_count s \<and> ft_checkpoint s1 = ft_checkpoint s)"
  using assms
  by (cases "frame_io (ft_env s) (ft_calls s)")
     (auto simp: ft_process_batch_def ft_save_checkpoint_def Let_def split: if_splits)

lemma ft_send_to_dlq_result:
  "ft_dlq_calls (ft_send_to_dlq batch e s) = Suc (ft_dlq_calls s) \<and>
   ft_dlq (ft_send_to_dlq batch e s) =
     (if dlq_write_ok (ft_env s) (ft_dlq_calls s) then ft_dlq s @ [(e, batch)] else ft_dlq s) \<and>
   ft_send_to_dlq batch e s\<lparr>ft_dlq_calls := ft_dlq_calls s, ft_dlq := ft_dlq s\<rparr> = s"
  by (simp add: ft_send_to_dlq_def Let_def)

section \<open>Retrying a batch\<close>

lemma ft_retry_ok: "ft_process_batch batch s = (s1, None) \<Longrightarrow> ft_retry batch r s = s1"
  by (subst ft_retry.simps) simp

lemma ft_retry_again:
  "ft_process_batch batch s = (s1, Some e) \<Longrightarrow> r < ft_max_retries s1 \<Longrightarrow>
   ft_retry batch r s = ft_retry batch (r + 1) (s1\<lparr>ft_retry_count := ft_retry_count s1 + 1\<rparr>)"
  by (subst ft_retry.simps) simp

lemma ft_retry_give_up:
  "ft_process_batch batch s = (s1, Some e) \<Longrightarrow> \<not> r < ft_max_retries s1 \<Longrightarrow>
   ft_retry batch r s =
     (if ft_enable_dlq s1 then ft_send_to_dlq batch e (s1\<lparr>ft_error_count := ft_error_count s1 + 1\<rparr>)
      else s1\<lparr>ft_error_count := ft_error_count s1 + 1\<rparr>)"
  by (subst ft_retry.simps) (simp add: Let_def)

declare ft_retry.simps [simp del]

lemmas ft_retry_unfold = ft_retry_ok ft_retry_again ft_retry_give_up

lemma ft_retry_fields:
  "ft_batch_size (ft_retry batch r s) = ft_batch_size s \<and>
   ft_batch_buffer (ft_retry batch r s) = ft_batch_buffer s \<and>
   ft_max_retries (ft_retry batch r s) = ft_max_retries s \<and>
   ft_enable_dlq (ft_retry batch r s) = ft_enable_dlq s \<and> ft_env (ft_retry batch r s) = ft_env s"
proof (induction batch r s rule: ft_retry.induct)
  case (1 batch r s)
  obtain s1 res where pb: "ft_process_batch batch s = (s1, res)" by fastforce
  note p = ft_process_batch_result [OF pb]
  show ?case
  proof (cases res)
    case None
    then show ?thesis using pb p by (simp add: ft_retry_ok)
  next
    case (Some e)
    show ?thesis
    proof (cases "r < ft_max_retries s1")
      case True
      then show ?thesis using "1.IH" [OF pb [symmetric] Some True] pb Some p
        by (simp add: ft_retry_again)
    qed (use pb Some p in \<open>simp add: ft_retry_give_up ft_send_to_dlq_def Let_def\<close>)
  qed
qed

text \<open>
  Where a batch can end: written as the next file (\<open>ft_written\<close>), or given up
  (\<open>ft_failed\<close>): counted in \<open>error_count\<close>, no file and no row counted, and
  put in the dead-letter queue exactly when the queue is enabled and its write
  succeeds.
\<close>

definition ft_written :: "'a list \<Rightarrow> 'a ft_state \<Rightarrow> 'a ft_state \<Rightarrow> bool" where
  "ft_written batch s s' \<longleftrightarrow>
     ft_files s' = ft_files s @ [(ft_file_counter s + 1, batch)] \<and>
     ft_file_counter s' = ft_file_counter s + 1 \<and>
     ft_processed_count s' = ft_processed_count s + int (length batch) \<and>
     ft_error_count s' = ft_error_count s \<and> ft_dlq s' = ft_dlq s"

definition ft_failed :: "'a list \<Rightarrow> 'a ft_state \<Rightarrow> 'a ft_state \<Rightarrow> bool" where
  "ft_failed batch s s' \<longleftrightarrow>
     ft_files s' = ft_files s \<and> ft_file_counter s' = ft_file_counter s \<and>
     ft_processed_count s' = ft_processed_count s \<and> ft_error_count s' = ft_error_count s + 1 \<and>
     (if ft_enable_dlq s \<and> dlq_write_ok (ft_env s) (ft_dlq_calls s)
      then (\<exists>e. ft_dlq s' = ft_dlq s @ [(e, batch)]) else ft_dlq s' = ft_dlq s)"

text \<open>
  C7: \<open>_process_batch_with_retry\<close> ends every batch in exactly one way: either
  one attempt wrote it as the next Parquet file and counted its rows, or every
  attempt failed, no file and no row was counted (failed attempts undo their
  effects), \<open>error_count\<close> grew by one, and the batch went to the dead-letter
  queue exactly when the queue is enabled and its write succeeded.
\<close>

theorem ft_retry_outcome:
  "ft_written batch s (ft_retry batch r s) \<or> ft_failed batch s (ft_retry batch r s)"
proof (induction batch r s rule: ft_retry.induct)
  case (1 batch r s)
  obtain s1 res where pb: "ft_process_batch batch s = (s1, res)" by fastforce
  note p = ft_process_batch_result [OF pb]
  show ?case
  proof (cases res)
    case None
    then show ?thesis using pb p by (simp add: ft_retry_ok ft_written_def)
  next
    case (Some e)
    show ?thesis
    proof (cases "r < ft_max_retries s1")
      case True
      let ?s1' = "s1\<lparr>ft_retry_count := ft_retry_count s1 + 1\<rparr>"
      have same: "ft_files ?s1' = ft_files s" "ft_file_counter ?s1' = ft_file_counter s"
        "ft_processed_count ?s1' = ft_processed_count s" "ft_error_count ?s1' = ft_error_count s"
        "ft_dlq ?s1' = ft_dlq s" "ft_enable_dlq ?s1' = ft_enable_dlq s" "ft_env ?s1' = ft_env s"
        "ft_dlq_calls ?s1' = ft_dlq_calls s"
        using p Some by simp_all
      have "ft_written batch ?s1' (ft_retry batch (r + 1) ?s1') \<or> ft_failed batch ?s1' (ft_retry batch (r + 1) ?s1')"
        by (rule "1.IH" [OF pb [symmetric] Some True])
      moreover have "ft_retry batch r s = ft_retry batch (r + 1) ?s1'"
        using pb True unfolding Some by (rule ft_retry_again)
      ultimately show ?thesis unfolding ft_written_def ft_failed_def same by (simp only:)
    next
      case False
      then show ?thesis using pb Some p
        by (auto simp: ft_retry_give_up ft_failed_def ft_send_to_dlq_def Let_def)
    qed
  qed
qed

lemma ft_send_to_dlq_fields [simp]:
  "ft_calls (ft_send_to_dlq batch e s) = ft_calls s"
  "ft_retry_count (ft_send_to_dlq batch e s) = ft_retry_count s"
  "ft_files (ft_send_to_dlq batch e s) = ft_files s"
  "ft_file_counter (ft_send_to_dlq batch e s) = ft_file_counter s"
  "ft_processed_count (ft_send_to_dlq batch e s) = ft_processed_count s"
  "ft_error_count (ft_send_to_dlq batch e s) = ft_error_count s"
  by (simp_all add: ft_send_to_dlq_def Let_def)

text \<open>
  C17: One call of \<open>_process_batch_with_retry(batch, r)\<close> makes at least one and
  at most \<open>max_retries - r + 1\<close> attempts (calls of \<open>_process_batch\<close>), and
  \<open>retry_count\<close> grows by the number of attempts minus one.
\<close>

theorem ft_retry_attempts:
  "ft_calls s < ft_calls (ft_retry batch r s) \<and>
   int (ft_calls (ft_retry batch r s)) \<le> int (ft_calls s) + max 0 (ft_max_retries s - r) + 1 \<and>
   ft_retry_count (ft_retry batch r s) =
     ft_retry_count s + int (ft_calls (ft_retry batch r s) - ft_calls s) - 1"
proof (induction batch r s rule: ft_retry.induct)
  case (1 batch r s)
  obtain s1 res where pb: "ft_process_batch batch s = (s1, res)" by fastforce
  note p = ft_process_batch_result [OF pb]
  show ?case
  proof (cases res)
    case None
    then show ?thesis using pb p by (simp add: ft_retry_ok)
  next
    case (Some e)
    show ?thesis
    proof (cases "r < ft_max_retries s1")
      case True
      let ?s1' = "s1\<lparr>ft_retry_count := ft_retry_count s1 + 1\<rparr>"
      have "ft_retry batch r s = ft_retry batch (r + 1) ?s1'"
        using pb True unfolding Some by (rule ft_retry_again)
      moreover note "1.IH" [OF pb [symmetric] Some True]
      ultimately show ?thesis using p True by auto
    next
      case False
      then show ?thesis using pb Some p by (simp add: ft_retry_give_up)
    qed
  qed
qed

text \<open>
  C18: When every attempt fails, \<open>_process_batch_with_retry(batch)\<close> makes
  exactly \<open>max_retries + 1\<close> attempts (for \<open>max_retries \<ge> 0\<close>), counts
  \<open>max_retries\<close> retries and one error, and gives the batch up.  The log
  line of the last attempt therefore reads \<open>attempt max_retries+1/max_retries\<close>.
\<close>

theorem ft_retry_all_fail:
  assumes "\<forall>k \<ge> ft_calls s. sim_fail (ft_env s) k"
  shows "ft_calls (ft_retry batch r s) = ft_calls s + nat (ft_max_retries s - r) + 1 \<and>
         ft_retry_count (ft_retry batch r s) = ft_retry_count s + max 0 (ft_max_retries s - r) \<and>
         ft_failed batch s (ft_retry batch r s)"
  using assms
proof (induction batch r s rule: ft_retry.induct)
  case (1 batch r s)
  have fail: "sim_fail (ft_env s) (ft_calls s)" using "1.prems" by simp
  obtain s1 res where pb: "ft_process_batch batch s = (s1, res)" by fastforce
  note p = ft_process_batch_result [OF pb]
  obtain e where Some: "res = Some e"
    using pb fail by (cases res) (auto simp: ft_process_batch_def Let_def)
  show ?case
  proof (cases "r < ft_max_retries s1")
    case True
    let ?s1' = "s1\<lparr>ft_retry_count := ft_retry_count s1 + 1\<rparr>"
    have eq: "ft_retry batch r s = ft_retry batch (r + 1) ?s1'"
      using pb True unfolding Some by (rule ft_retry_again)
    have "\<forall>k \<ge> ft_calls ?s1'. sim_fail (ft_env ?s1') k" using "1.prems" p by simp
    note ih = "1.IH" [OF pb [symmetric] Some True this]
    have same: "ft_files ?s1' = ft_files s" "ft_file_counter ?s1' = ft_file_counter s"
      "ft_processed_count ?s1' = ft_processed_count s" "ft_error_count ?s1' = ft_error_count s"
      "ft_dlq ?s1' = ft_dlq s" "ft_enable_dlq ?s1' = ft_enable_dlq s" "ft_env ?s1' = ft_env s"
      "ft_dlq_calls ?s1' = ft_dlq_calls s"
      using p Some by simp_all
    have "ft_failed batch ?s1' (ft_retry batch (r + 1) ?s1')" using ih by simp
    then have "ft_failed batch s (ft_retry batch r s)" unfolding eq ft_failed_def same .
    then show ?thesis using ih eq p True by simp
  next
    case False
    then show ?thesis using pb Some p
      by (auto simp: ft_retry_give_up ft_failed_def ft_send_to_dlq_def Let_def)
  qed
qed

section \<open>The consume loop\<close>

text \<open>Retrying a batch neither reads nor writes the buffer.\<close>

lemma ft_process_batch_buffer_upd:
  "ft_process_batch batch (s\<lparr>ft_batch_buffer := x\<rparr>) =
   (case ft_process_batch batch s of (s1, res) \<Rightarrow> (s1\<lparr>ft_batch_buffer := x\<rparr>, res))"
  by (simp add: ft_process_batch_def ft_save_checkpoint_def Let_def)

lemma ft_retry_buffer_upd:
  "ft_retry batch r (s\<lparr>ft_batch_buffer := x\<rparr>) = (ft_retry batch r s)\<lparr>ft_batch_buffer := x\<rparr>"
proof (induction batch r s rule: ft_retry.induct)
  case (1 batch r s)
  obtain s1 res where pb: "ft_process_batch batch s = (s1, res)" by fastforce
  then have pb': "ft_process_batch batch (s\<lparr>ft_batch_buffer := x\<rparr>) = (s1\<lparr>ft_batch_buffer := x\<rparr>, res)"
    by (simp add: ft_process_batch_buffer_upd)
  show ?case
  proof (cases res)
    case None
    then show ?thesis using pb pb' by (simp add: ft_retry_ok)
  next
    case (Some e)
    show ?thesis
    proof (cases "r < ft_max_retries s1")
      case True
      have upd: "s1\<lparr>ft_batch_buffer := x, ft_retry_count := ft_retry_count s1 + 1\<rparr> =
                 s1\<lparr>ft_retry_count := ft_retry_count s1 + 1, ft_batch_buffer := x\<rparr>"
        by (cases s1) simp
      show ?thesis using "1.IH" [OF pb [symmetric] Some True] pb pb' Some True
        by (simp add: ft_retry_again upd)
    next
      case False
      then show ?thesis using pb pb' Some
        by (simp add: ft_retry_give_up ft_send_to_dlq_def Let_def)
    qed
  qed
qed

lemma fold_ft_retry_buffer_upd:
  "fold (\<lambda>b t. ft_retry b 0 t) bs (s\<lparr>ft_batch_buffer := x\<rparr>) =
   (fold (\<lambda>b t. ft_retry b 0 t) bs s)\<lparr>ft_batch_buffer := x\<rparr>"
  by (induction bs arbitrary: s) (simp_all add: ft_retry_buffer_upd)

lemma ft_drain_step:
  "ft_batch_size s \<le> int (length (ft_batch_buffer s)) \<Longrightarrow>
   ft_drain s = ft_drain (ft_retry (py_take (ft_batch_size s) (ft_batch_buffer s)) 0
                            (s\<lparr>ft_batch_buffer := py_drop (ft_batch_size s) (ft_batch_buffer s)\<rparr>))"
  by (subst ft_drain.simps) simp

lemma ft_drain_done: "\<not> ft_batch_size s \<le> int (length (ft_batch_buffer s)) \<Longrightarrow> ft_drain s = Some s"
  by (subst ft_drain.simps) simp

lemma ft_drain_chunks:
  "0 < ft_batch_size s \<Longrightarrow>
   ft_drain s = Some (fold (\<lambda>b t. ft_retry b 0 t) (full_chunks (nat (ft_batch_size s)) (ft_batch_buffer s))
                       (s\<lparr>ft_batch_buffer := chunks_rest (nat (ft_batch_size s)) (ft_batch_buffer s)\<rparr>))"
proof (induction "length (ft_batch_buffer s)" arbitrary: s rule: less_induct)
  case less
  let ?n = "nat (ft_batch_size s)" and ?b = "ft_batch_buffer s"
  show ?case
  proof (cases "ft_batch_size s \<le> int (length ?b)")
    case True
    let ?s2 = "ft_retry (take ?n ?b) 0 (s\<lparr>ft_batch_buffer := drop ?n ?b\<rparr>)"
    have f: "ft_batch_buffer ?s2 = drop ?n ?b" "ft_batch_size ?s2 = ft_batch_size s"
      by (simp_all add: ft_retry_fields)
    have n: "0 < ?n" "?n \<le> length ?b" using less.prems True by simp_all
    have "length (ft_batch_buffer ?s2) < length ?b" using f n by simp
    note ih = less.hyps [OF this] less.prems
    have "?s2\<lparr>ft_batch_buffer := chunks_rest ?n (drop ?n ?b)\<rparr> =
          ft_retry (take ?n ?b) 0 (s\<lparr>ft_batch_buffer := chunks_rest ?n ?b\<rparr>)"
      using ft_retry_buffer_upd [where s = "s\<lparr>ft_batch_buffer := drop ?n ?b\<rparr>"]
            ft_retry_buffer_upd [where s = s] full_chunks_step [OF n] by simp
    then show ?thesis
      using ih f full_chunks_step [OF n] less.prems by (simp add: ft_drain_step [OF True])
  next
    case False
    then show ?thesis using full_chunks_stop [of ?b ?n] by (simp add: ft_drain_done)
  qed
qed

text \<open>
  C8: For a positive batch size, \<open>consume(elements)\<close> returns without raising,
  and it is the same as retrying each full batch of \<open>buffer + elements\<close> in
  turn: the state it leaves is the fold of \<open>_process_batch_with_retry\<close> over
  the full batches, starting from the state whose buffer holds the items of no
  full batch.
\<close>

theorem ft_consume_batches:
  assumes "0 < ft_batch_size s"
  shows "ft_consume s elements =
           Some (fold (\<lambda>b t. ft_retry b 0 t)
                   (full_chunks (nat (ft_batch_size s)) (ft_batch_buffer s @ elements))
                   (s\<lparr>ft_batch_buffer := chunks_rest (nat (ft_batch_size s)) (ft_batch_buffer s @ elements)\<rparr>),
                 None)"
  using ft_drain_chunks [of "s\<lparr>ft_batch_buffer := ft_batch_buffer s @ elements\<rparr>"] assms
  by (simp add: ft_consume_def)

lemma ft_drain_Some_pos: "ft_drain s = Some s' \<Longrightarrow> 0 < ft_batch_size s"
proof -
  have "\<forall>s s'. ft_drain s = Some s' \<longrightarrow> 0 < ft_batch_size s"
  proof (induction rule: ft_drain.fixp_induct)
    case 1
    show ?case by (rule option_admissible)
  next
    case 2
    show ?case by simp
  next
    case (3 f)
    show ?case
    proof (intro allI impI)
      fix s s'
      assume "(if ft_batch_size s \<le> int (length (ft_batch_buffer s))
               then f (ft_retry (py_take (ft_batch_size s) (ft_batch_buffer s)) 0
                         (s\<lparr>ft_batch_buffer := py_drop (ft_batch_size s) (ft_batch_buffer s)\<rparr>))
               else Some s) = Some s'"
      then show "0 < ft_batch_size s"
        using 3 by (auto simp: ft_retry_fields split: if_splits)
    qed
  qed
  then show "ft_drain s = Some s' \<Longrightarrow> 0 < ft_batch_size s" by blast
qed

text \<open>
  C9: For a batch size of zero or less, \<open>consume\<close> never returns: the
  condition \<open>len(self.batch_buffer) >= self.batch_size\<close> of its loop stays
  true (a batch size of 0 takes empty batches, which fail and are retried and
  given up for ever; a negative one leaves the buffer with its last
  \<open>-batch_size\<close> items), so the worker thread of the consumer hangs.
\<close>

theorem ft_consume_diverges: "ft_batch_size s \<le> 0 \<Longrightarrow> ft_consume s elements = None"
  using ft_drain_Some_pos [of "s\<lparr>ft_batch_buffer := ft_batch_buffer s @ elements\<rparr>"]
  by (cases "ft_drain (s\<lparr>ft_batch_buffer := ft_batch_buffer s @ elements\<rparr>)")
     (auto simp: ft_consume_def)

section \<open>Checkpoints and file numbers\<close>

text \<open>
  C19: A checkpoint round trip: after a successful \<open>_process_batch\<close> whose
  checkpoint write succeeded, a consumer constructed on that checkpoint file
  resumes with the \<open>file_counter\<close> and \<open>processed_count\<close> of the consumer that
  wrote it, whatever its other arguments.
\<close>

theorem ft_checkpoint_roundtrip:
  assumes "ft_process_batch batch s = (s1, None)" "ckpt_write_ok (ft_env s) (ft_calls s)"
  shows "map_option (\<lambda>s0. (ft_file_counter s0, ft_processed_count s0))
           (ft_new nm bs retries dlq (ft_checkpoint s1) w) =
         Some (ft_file_counter s1, ft_processed_count s1)"
  using assms
  by (auto simp: ft_process_batch_def ft_save_checkpoint_def ft_new_def ft_load_checkpoint_def
                 json_get_int_def Let_def split: if_splits)

text \<open>
  The files a consumer has written are numbered consecutively and the last one
  is \<open>file_counter\<close>: the roll-back of \<open>file_counter\<close> after a failed write keeps
  the numbering free of gaps.
\<close>

definition ft_files_consec :: "'a ft_state \<Rightarrow> bool" where
  "ft_files_consec s \<longleftrightarrow>
     map fst (ft_files s) = [ft_file_counter s - int (length (ft_files s)) + 1..ft_file_counter s]"

lemma ft_files_consec_process_batch:
  assumes "ft_files_consec s"
  shows "ft_files_consec (fst (ft_process_batch batch s))"
proof -
  obtain s1 res where pb: "ft_process_batch batch s = (s1, res)" by fastforce
  note p = ft_process_batch_result [OF pb]
  let ?c = "ft_file_counter s" and ?l = "int (length (ft_files s))"
  have "[?c + 1 - (?l + 1) + 1..?c + 1] = [?c - ?l + 1..?c] @ [?c + 1]"
    using upto_rec2 [of "?c - ?l + 1" "?c + 1"] by simp
  then show ?thesis using assms p pb by (cases res) (simp_all add: ft_files_consec_def)
qed

lemma ft_files_consec_retry: "ft_files_consec s \<Longrightarrow> ft_files_consec (ft_retry batch r s)"
proof (induction batch r s rule: ft_retry.induct)
  case (1 batch r s)
  obtain s1 res where pb: "ft_process_batch batch s = (s1, res)" by fastforce
  have c1: "ft_files_consec s1" using ft_files_consec_process_batch [OF "1.prems", of batch] pb by simp
  show ?case
  proof (cases res)
    case None
    then show ?thesis using pb c1 by (simp add: ft_retry_ok)
  next
    case (Some e)
    show ?thesis
    proof (cases "r < ft_max_retries s1")
      case True
      have "ft_files_consec (s1\<lparr>ft_retry_count := ft_retry_count s1 + 1\<rparr>)"
        using c1 by (simp add: ft_files_consec_def)
      then show ?thesis using "1.IH" [OF pb [symmetric] Some True] pb Some True
        by (simp add: ft_retry_again)
    next
      case False
      then show ?thesis using pb Some c1 by (simp add: ft_retry_give_up ft_files_consec_def)
    qed
  qed
qed

lemma ft_files_consec_fold:
  "ft_files_consec s \<Longrightarrow> ft_files_consec (fold (\<lambda>b t. ft_retry b 0 t) bs s)"
  by (induction bs arbitrary: s) (simp_all add: ft_files_consec_retry)

text \<open>
  C15: The files of a fault-tolerant consumer stay numbered consecutively up
  to \<open>file_counter\<close>: it holds for a new consumer (with or without a loaded
  checkpoint) and after every \<open>consume\<close> and \<open>close\<close>.
\<close>

theorem ft_files_consecutive:
  "(ft_new nm bs retries dlq file w = Some s0 \<longrightarrow> ft_files_consec s0) \<and>
   (ft_files_consec s \<longrightarrow> ft_consume s elements = Some (s', e) \<longrightarrow> ft_files_consec s') \<and>
   (ft_files_consec s \<longrightarrow> ft_files_consec (ft_close s))"
proof (intro conjI impI)
  assume "ft_new nm bs retries dlq file w = Some s0"
  from ft_new_Some [OF this] show "ft_files_consec s0" by (simp add: ft_files_consec_def)
next
  assume c: "ft_files_consec s" and r: "ft_consume s elements = Some (s', e)"
  have "0 < ft_batch_size s"
    using r ft_consume_diverges [of s elements] by fastforce
  then have "s' = fold (\<lambda>b t. ft_retry b 0 t)
                   (full_chunks (nat (ft_batch_size s)) (ft_batch_buffer s @ elements))
                   (s\<lparr>ft_batch_buffer := chunks_rest (nat (ft_batch_size s)) (ft_batch_buffer s @ elements)\<rparr>)"
    using r ft_consume_batches [of s elements] by simp
  moreover have "ft_files_consec
      (s\<lparr>ft_batch_buffer := chunks_rest (nat (ft_batch_size s)) (ft_batch_buffer s @ elements)\<rparr>)"
    using c by (simp add: ft_files_consec_def)
  ultimately show "ft_files_consec s'" by (simp add: ft_files_consec_fold)
next
  assume "ft_files_consec s"
  then show "ft_files_consec (ft_close s)"
    using ft_files_consec_retry [of s] by (simp add: ft_close_def ft_files_consec_def)
qed

section \<open>Runs on concrete inputs\<close>

text \<open>
  \<open>FT-Consumer-1\<close> of \<open>main()\<close> (with the batch size as a parameter) in a world
  where every call succeeds, and worlds where some calls fail.
\<close>

abbreviation ft_ok_world :: ft_world where
  "ft_ok_world \<equiv> \<lparr>sim_fail = (\<lambda>_. False), frame_io = (\<lambda>_. Io_Ok), ckpt_write_ok = (\<lambda>_. True),
                   ckpt_truncated = (\<lambda>_. False),
                    clock = (\<lambda>_. ''2025-01-01T00:00:00''), dlq_write_ok = (\<lambda>_. True)\<rparr>"

abbreviation ft_demo :: "ft_world \<Rightarrow> int \<Rightarrow> int ft_state" where
  "ft_demo w bs \<equiv>
     \<lparr>ft_name = ''FT-Consumer-1'', ft_batch_size = bs, ft_processed_count = 0, ft_error_count = 0,
      ft_retry_count = 0, ft_batch_buffer = [], ft_file_counter = 0, ft_max_retries = 3,
      ft_enable_dlq = True, ft_files = [], ft_checkpoint = No_File, ft_dlq = [], ft_env = w,
      ft_calls = 0, ft_dlq_calls = 0\<rparr>"

theorem ft_retry_all_fail_witness:
  "ft_calls (ft_retry [1::int] 0 (ft_demo (ft_ok_world\<lparr>sim_fail := (\<lambda>_. True)\<rparr>) 100)) = 4 \<and>
   ft_error_count (ft_retry [1::int] 0 (ft_demo (ft_ok_world\<lparr>sim_fail := (\<lambda>_. True)\<rparr>) 100)) = 1"
  using ft_retry_all_fail [of "ft_demo (ft_ok_world\<lparr>sim_fail := (\<lambda>_. True)\<rparr>) 100" "[1::int]" 0]
  by (simp add: ft_failed_def)

theorem ft_consume_batches_witness:
  "\<exists>s'. ft_consume (ft_demo ft_ok_world 2) [1, 2, 3 :: int] = Some (s', None) \<and>
        ft_files s' = [(1, [1, 2])] \<and> ft_batch_buffer s' = [3] \<and> ft_processed_count s' = 2"
  using ft_consume_batches [of "ft_demo ft_ok_world 2" "[1, 2, 3 :: int]"]
  by (simp add: full_chunks.simps chunks_rest_def ft_retry.simps ft_process_batch_def
                ft_save_checkpoint_def Let_def)

theorem ft_consume_diverges_witness: "ft_consume (ft_demo ft_ok_world 0) [1 :: int] = None"
  using ft_consume_diverges [of "ft_demo ft_ok_world 0" "[1 :: int]"] by simp

theorem ft_checkpoint_roundtrip_witness:
  "map_option (\<lambda>s0. (ft_file_counter s0, ft_processed_count s0))
     (ft_new ''FT-Consumer-1'' 100 3 True
        (ft_checkpoint (fst (ft_process_batch [7 :: int] (ft_demo ft_ok_world 1)))) ft_ok_world) =
   Some (1, 1)"
  using ft_checkpoint_roundtrip [of "[7 :: int]" "ft_demo ft_ok_world 1"
          "fst (ft_process_batch [7 :: int] (ft_demo ft_ok_world 1))"]
  by (simp add: ft_process_batch_def ft_save_checkpoint_def Let_def)

text \<open>The first write fails and is retried: the retried batch still gets number 1.\<close>

abbreviation ft_write_fails_once :: ft_world where
  "ft_write_fails_once \<equiv> ft_ok_world\<lparr>frame_io := (\<lambda>k. if k = 0 then Io_Write_Error else Io_Ok)\<rparr>"

theorem ft_files_consecutive_witness:
  "ft_files (fst (the (ft_consume (ft_demo ft_write_fails_once 2) [1, 2, 3, 4, 5 :: int]))) =
     [(1, [1, 2]), (2, [3, 4])] \<and>
   ft_files_consec (fst (the (ft_consume (ft_demo ft_write_fails_once 2) [1, 2, 3, 4, 5 :: int])))"
  using ft_files_consecutive [of "''FT-Consumer-1''" 2 3 True No_File ft_write_fails_once
          "ft_demo ft_write_fails_once 2" "ft_demo ft_write_fails_once 2" "[1, 2, 3, 4, 5 :: int]"
          "fst (the (ft_consume (ft_demo ft_write_fails_once 2) [1, 2, 3, 4, 5 :: int]))" None]
  by (simp add: ft_new_def ft_load_checkpoint_def ft_files_consec_def ft_consume_def ft_drain.simps
                ft_retry.simps ft_process_batch_def ft_save_checkpoint_def Let_def)

end
