(* ===== verification/Fault_Tolerant_Main.thy ===== *)
theory Fault_Tolerant_Main
  imports Fault_Tolerant
begin

text \<open>
  \<open>main()\<close> of \<open>src/fault_tolerant_example.py\<close>: two
  \<open>FaultTolerantBatchConsumer\<close>s (batch size 100, three retries, dead-letter
  queue on), a disruptor of size 2048 with \<open>custom_error_handler\<close>, the
  produced objects one per \<open>produce\<close> call, and \<open>close\<close> in the \<open>finally\<close>
  clause.  The produced objects (random in the script, 1000 of them) and the
  checkpoint files found on disk are parameters.  \<open>ft_new\<close> gives
  \<^term>\<open>None\<close> for a checkpoint the model does not represent, and then so does
  the run.

  In a world where no attempt fails (no simulated failure, every DataFrame and
  Parquet write succeeds), the consumer meets the interface of
  \<open>Consumer_Interface\<close> with the invariant \<open>ft_ready\<close> and the abstraction
  \<open>ft_accounted\<close>.
\<close>

definition ft_ready :: "'a ft_state \<Rightarrow> bool" where
  "ft_ready s \<longleftrightarrow> 0 < ft_batch_size s \<and> ft_dlq s = [] \<and> ft_error_count s = 0 \<and>
     (\<forall>k \<ge> ft_calls s. \<not> sim_fail (ft_env s) k \<and> frame_io (ft_env s) k = Io_Ok)"

definition ft_accounted :: "'a ft_state \<Rightarrow> 'a list" where
  "ft_accounted s = concat (map snd (ft_files s)) @ ft_batch_buffer s"

definition ft_main_run ::
  "'a list \<Rightarrow> ckpt_file \<Rightarrow> ckpt_file \<Rightarrow> ft_world \<Rightarrow> ft_world \<Rightarrow>
   (error + ('a, 'a ft_state, exn) disruptor) option" where
  "ft_main_run items f1 f2 w1 w2 =
     (case ft_new ''FT-Consumer-1'' 100 3 True f1 w1 of
        None \<Rightarrow> None
      | Some c1 \<Rightarrow>
        (case ft_new ''FT-Consumer-2'' 100 3 True f2 w2 of
           None \<Rightarrow> None
         | Some c2 \<Rightarrow> script_main ''FaultTolerantExample'' 2048 [c1, c2] ft_ops items))"

section \<open>Batches in a world without failures\<close>

lemma ft_retry_ready:
  assumes r: "ft_ready s" and ne: "batch \<noteq> []"
  shows "ft_ready (ft_retry batch n s) \<and>
         ft_files (ft_retry batch n s) = ft_files s @ [(ft_file_counter s + 1, batch)] \<and>
         ft_batch_buffer (ft_retry batch n s) = ft_batch_buffer s"
proof -
  have ok: "\<not> sim_fail (ft_env s) (ft_calls s)" "frame_io (ft_env s) (ft_calls s) = Io_Ok"
    using r by (simp_all add: ft_ready_def)
  obtain s1 where pb: "ft_process_batch batch s = (s1, None)"
    using ok ne by (simp add: ft_process_batch_def Let_def)
  note p = ft_process_batch_result [OF pb]
  have "ft_ready s1" using r p by (auto simp: ft_ready_def)
  then show ?thesis using p by (simp add: ft_retry_ok [OF pb])
qed

lemma ft_fold_ready:
  "ft_ready s \<Longrightarrow> \<forall>b \<in> set bs. b \<noteq> [] \<Longrightarrow>
   ft_ready (fold (\<lambda>b t. ft_retry b 0 t) bs s) \<and>
   concat (map snd (ft_files (fold (\<lambda>b t. ft_retry b 0 t) bs s))) = concat (map snd (ft_files s)) @ concat bs \<and>
   ft_batch_buffer (fold (\<lambda>b t. ft_retry b 0 t) bs s) = ft_batch_buffer s"
proof (induction bs arbitrary: s)
  case Nil
  then show ?case by simp
next
  case (Cons b bs)
  note one = ft_retry_ready [OF Cons.prems(1), of b 0]
  show ?case using Cons.IH [of "ft_retry b 0 s"] one Cons.prems(2) by simp
qed

lemma ft_consume_ready:
  assumes r: "ft_ready s"
  shows "\<exists>s'. ft_consume s b = Some (s', None) \<and> ft_ready s' \<and> ft_accounted s' = ft_accounted s @ b"
proof -
  let ?n = "nat (ft_batch_size s)" and ?xs = "ft_batch_buffer s @ b"
  let ?s0 = "s\<lparr>ft_batch_buffer := chunks_rest ?n ?xs\<rparr>"
  have pos: "0 < ft_batch_size s" using r by (simp add: ft_ready_def)
  have ne: "\<forall>c \<in> set (full_chunks ?n ?xs). c \<noteq> []"
    using pos full_chunks_length [of _ ?n ?xs] by fastforce
  have r0: "ft_ready ?s0" using r by (simp add: ft_ready_def)
  note f = ft_fold_ready [OF r0 ne]
  have "ft_drain (s\<lparr>ft_batch_buffer := ?xs\<rparr>) = Some (fold (\<lambda>b t. ft_retry b 0 t) (full_chunks ?n ?xs) ?s0)"
    using ft_drain_chunks [of "s\<lparr>ft_batch_buffer := ?xs\<rparr>"] pos by simp
  moreover have "ft_accounted (fold (\<lambda>b t. ft_retry b 0 t) (full_chunks ?n ?xs) ?s0) = ft_accounted s @ b"
    using f full_chunks_concat [of ?n ?xs] by (simp add: ft_accounted_def)
  ultimately show ?thesis using f by (simp add: ft_consume_def)
qed

lemma ft_close_ready:
  assumes r: "ft_ready s"
  shows "ft_accounted (ft_close s) = ft_accounted s \<and> ft_batch_buffer (ft_close s) = [] \<and>
         ft_dlq (ft_close s) = [] \<and> ft_error_count (ft_close s) = 0"
proof (cases "ft_batch_buffer s = []")
  case True
  then show ?thesis using r by (simp add: ft_close_def ft_ready_def)
next
  case False
  note one = ft_retry_ready [OF r False, of 0]
  then show ?thesis using False by (simp add: ft_close_def ft_accounted_def ft_ready_def)
qed

lemma ft_fold_batch_size:
  "ft_batch_size (fold (\<lambda>b t. ft_retry b 0 t) bs s) = ft_batch_size s"
  by (induction bs arbitrary: s) (simp_all add: ft_retry_fields)

lemma ft_ops_return: "callbacks_return (\<lambda>s. 0 < ft_batch_size s) (ft_ops :: ('a ft_state, 'a, exn) consumer)"
  unfolding callbacks_return_def
proof (intro allI impI)
  fix s :: "'a ft_state" and b :: "'a list"
  assume pos: "0 < ft_batch_size s"
  let ?s0 = "s\<lparr>ft_batch_buffer := ft_batch_buffer s @ b\<rparr>"
  have "\<exists>t. ft_drain ?s0 = Some t \<and> 0 < ft_batch_size t"
    using ft_drain_chunks [of ?s0] pos by (simp add: ft_fold_batch_size)
  then show "\<exists>s' e. consume_op ft_ops s b = Some (s', e) \<and> 0 < ft_batch_size s'"
    by (auto simp: ft_ops_def ft_consume_def)
qed

lemma ft_ops_tracks: "consumer_tracks (\<lambda>s. 0 < ft_batch_size s) ft_ready ft_accounted ft_ops"
  unfolding consumer_tracks_def
proof (rule conjI; intro allI impI)
  fix s b s' e
  assume r: "ft_ready s" and c: "consume_op ft_ops s b = Some (s', e)"
  obtain s'' where "ft_consume s b = Some (s'', None)" "ft_ready s''" "ft_accounted s'' = ft_accounted s @ b"
    using ft_consume_ready [OF r] by blast
  then show "ft_ready s' \<and> ft_accounted s' = ft_accounted s @ b" using c by (simp add: ft_ops_def)
next
  fix s
  assume "ft_ready s"
  then show "ft_accounted (fst (close_op ft_ops s)) = ft_accounted s"
    using ft_close_ready [of s] by (simp add: ft_ops_def)
qed

section \<open>The run of main()\<close>

text \<open>
  C3: \<open>main()\<close> of \<open>fault_tolerant_example.py\<close> returns for every list of
  produced objects, every representable checkpoint on disk and whatever the
  outside world answers; the bus ends closed and each consumer was closed
  once.  A consumer none of whose attempts fails ends with an empty buffer,
  an empty dead-letter queue, no error counted, and Parquet files holding,
  in file order, exactly the produced objects in the order they were
  produced, whatever happens to the other consumer.
\<close>

theorem ft_main_isolation:
  assumes "ft_new ''FT-Consumer-1'' 100 3 True f1 w1 = Some (c1 :: 'a ft_state)"
    and "ft_new ''FT-Consumer-2'' 100 3 True f2 w2 = Some (c2 :: 'a ft_state)"
  shows "\<exists>d. ft_main_run (items :: 'a list) f1 f2 w1 w2 = Some (Inr d) \<and> phase d = Closed \<and>
           close_calls d = [1, 1] \<and> length (cstates d) = 2 \<and>
           (\<forall>j < 2. (\<forall>k. \<not> sim_fail ([w1, w2] ! j) k \<and> frame_io ([w1, w2] ! j) k = Io_Ok) \<longrightarrow>
              concat (map snd (ft_files (cstates d ! j))) = items \<and> ft_batch_buffer (cstates d ! j) = [] \<and>
              ft_dlq (cstates d ! j) = [] \<and> ft_error_count (cstates d ! j) = 0)"
proof -
  let ?cs = "[c1, c2]"
  let ?J = "{j. j < 2 \<and> (\<forall>k. \<not> sim_fail ([w1, w2] ! j) k \<and> frame_io ([w1, w2] ! j) k = Io_Ok)}"
  have new: "ft_batch_size c1 = 100 \<and> ft_batch_buffer c1 = [] \<and> ft_files c1 = [] \<and> ft_dlq c1 = [] \<and>
             ft_error_count c1 = 0 \<and> ft_env c1 = w1 \<and> ft_calls c1 = 0"
    "ft_batch_size c2 = 100 \<and> ft_batch_buffer c2 = [] \<and> ft_files c2 = [] \<and> ft_dlq c2 = [] \<and>
             ft_error_count c2 = 0 \<and> ft_env c2 = w2 \<and> ft_calls c2 = 0"
    using ft_new_Some [OF assms(1)] ft_new_Some [OF assms(2)] by simp_all
  have cs: "\<forall>c \<in> set ?cs. 0 < ft_batch_size c" using new by simp
  have q: "\<forall>j \<in> ?J. j < length ?cs \<longrightarrow> ft_ready (?cs ! j) \<and> ft_accounted (?cs ! j) = []"
    using new by (auto simp: ft_ready_def ft_accounted_def less_Suc_eq nth_Cons')
  have sz: "(1::int) < 2048" by simp
  obtain d where d: "script_main ''FaultTolerantExample'' 2048 ?cs ft_ops items = Some (Inr d)"
    "phase d = Closed" "length (cstates d) = length ?cs" "close_calls d = replicate (length ?cs) 1"
    and each: "\<forall>j \<in> ?J. j < length ?cs \<longrightarrow> ft_accounted (cstates d ! j) = items \<and>
                 (\<exists>s. 0 < ft_batch_size s \<and> ft_ready s \<and> cstates d ! j = fst (close_op ft_ops s))"
    using script_main_run [OF ft_ops_return ft_ops_tracks cs q sz] by blast
  have "(\<forall>k. \<not> sim_fail ([w1, w2] ! j) k \<and> frame_io ([w1, w2] ! j) k = Io_Ok) \<longrightarrow>
          concat (map snd (ft_files (cstates d ! j))) = items \<and> ft_batch_buffer (cstates d ! j) = [] \<and>
          ft_dlq (cstates d ! j) = [] \<and> ft_error_count (cstates d ! j) = 0"
    if j: "j < 2" for j
  proof
    assume "\<forall>k. \<not> sim_fail ([w1, w2] ! j) k \<and> frame_io ([w1, w2] ! j) k = Io_Ok"
    then have a: "ft_accounted (cstates d ! j) = items"
      and "\<exists>s. ft_ready s \<and> cstates d ! j = ft_close s"
      using each j by (auto simp: ft_ops_def)
    then obtain s where "ft_ready s" "cstates d ! j = ft_close s" by blast
    then show "concat (map snd (ft_files (cstates d ! j))) = items \<and> ft_batch_buffer (cstates d ! j) = [] \<and>
               ft_dlq (cstates d ! j) = [] \<and> ft_error_count (cstates d ! j) = 0"
      using a ft_close_ready [of s] by (simp add: ft_accounted_def)
  qed
  then show ?thesis using d assms by (simp add: ft_main_run_def numeral_2_eq_2)
qed

abbreviation ft_no_failure :: ft_world where
  "ft_no_failure \<equiv> \<lparr>sim_fail = (\<lambda>_. False), frame_io = (\<lambda>_. Io_Ok), ckpt_write_ok = (\<lambda>_. True),
                   ckpt_truncated = (\<lambda>_. False),
                      clock = (\<lambda>_. ''2025-01-01T00:00:00''), dlq_write_ok = (\<lambda>_. True)\<rparr>"

text \<open>
  The first consumer resumes from the checkpoint of an earlier run and every
  attempt of it fails; the second starts afresh and writes every object.
\<close>

theorem ft_main_isolation_witness:
  "\<exists>d. ft_main_run [1, 2, 3 :: int]
         (Json_Obj [(''last_batch_number'', JInt 7), (''processed_count'', JInt 700)]) No_File
         (ft_no_failure\<lparr>sim_fail := (\<lambda>_. True)\<rparr>) ft_no_failure = Some (Inr d) \<and> phase d = Closed \<and>
       concat (map snd (ft_files (cstates d ! 1))) = [1, 2, 3]"
  using ft_main_isolation [of
      "Json_Obj [(''last_batch_number'', JInt 7), (''processed_count'', JInt 700)]"
      "ft_no_failure\<lparr>sim_fail := (\<lambda>_. True)\<rparr>"
      "the (ft_new ''FT-Consumer-1'' 100 3 True
              (Json_Obj [(''last_batch_number'', JInt 7), (''processed_count'', JInt 700)])
              (ft_no_failure\<lparr>sim_fail := (\<lambda>_. True)\<rparr>))"
      No_File ft_no_failure "the (ft_new ''FT-Consumer-2'' 100 3 True No_File ft_no_failure)" "[1, 2, 3 :: int]"]
  by (simp add: ft_new_def ft_load_checkpoint_def json_get_int_def) (elim exE conjE, intro exI conjI, assumption+, simp)

end
