(* ===== verification/Fault_Tolerant_Spec.thy ===== *)
theory Fault_Tolerant_Spec
  imports Fault_Tolerant
begin

text \<open>
  Abstract specifications that \<open>FaultTolerantBatchConsumer\<close> implements.
  \<open>_process_batch_with_retry\<close> is a bounded retry: it looks for the first
  attempt that succeeds among the attempts it is allowed, and the recursion
  with its counter and roll-backs refines that search (\<open>first_success\<close>).
\<close>

section \<open>Bounded retry\<close>

text \<open>Whether the attempt made as the \<open>k\<close>-th call of \<open>_process_batch\<close> succeeds.\<close>

definition attempt_ok :: "'a list \<Rightarrow> ft_world \<Rightarrow> nat \<Rightarrow> bool" where
  "attempt_ok batch w k \<longleftrightarrow> \<not> sim_fail w k \<and> batch \<noteq> [] \<and> frame_io w k = Io_Ok"

text \<open>The first of the \<open>m\<close> attempts numbered from \<open>c\<close> that succeeds, if any.\<close>

definition first_success :: "(nat \<Rightarrow> bool) \<Rightarrow> nat \<Rightarrow> nat \<Rightarrow> nat option" where
  "first_success ok c m = find ok [c..<c + m]"

lemma ft_process_batch_None_iff:
  "snd (ft_process_batch batch s) = None \<longleftrightarrow> attempt_ok batch (ft_env s) (ft_calls s)"
  by (cases "frame_io (ft_env s) (ft_calls s)")
     (auto simp: ft_process_batch_def ft_save_checkpoint_def attempt_ok_def Let_def)

lemma first_success_Suc:
  "first_success ok c (Suc m) = (if ok c then Some c else first_success ok (Suc c) m)"
  by (simp add: first_success_def upt_rec)

text \<open>
  C6: \<open>_process_batch_with_retry(batch, r)\<close> refines the bounded retry: when
  one of the \<open>max_retries - r + 1\<close> attempts it may make succeeds, the first
  such attempt is the last call of \<open>_process_batch\<close> and the batch is written
  as the next file; when none does, all of them are made and the batch is
  given up.
\<close>

theorem ft_retry_refines:
  "(case first_success (attempt_ok batch (ft_env s)) (ft_calls s) (nat (ft_max_retries s - r) + 1) of
      Some k \<Rightarrow> ft_written batch s (ft_retry batch r s) \<and> ft_calls (ft_retry batch r s) = Suc k
    | None \<Rightarrow> ft_failed batch s (ft_retry batch r s) \<and>
              ft_calls (ft_retry batch r s) = ft_calls s + nat (ft_max_retries s - r) + 1)"
proof (induction batch r s rule: ft_retry.induct)
  case (1 batch r s)
  obtain s1 res where pb: "ft_process_batch batch s = (s1, res)" by fastforce
  note p = ft_process_batch_result [OF pb]
  have ok: "res = None \<longleftrightarrow> attempt_ok batch (ft_env s) (ft_calls s)"
    using ft_process_batch_None_iff [of batch s] pb by simp
  show ?case
  proof (cases res)
    case None
    then show ?thesis using pb p ok by (simp add: first_success_Suc ft_retry_ok ft_written_def)
  next
    case (Some e)
    then have nok: "\<not> attempt_ok batch (ft_env s) (ft_calls s)" using ok by simp
    show ?thesis
    proof (cases "r < ft_max_retries s1")
      case True
      let ?s1' = "s1\<lparr>ft_retry_count := ft_retry_count s1 + 1\<rparr>"
      have eq: "ft_retry batch r s = ft_retry batch (r + 1) ?s1'"
        using pb True unfolding Some by (rule ft_retry_again)
      have same: "ft_files ?s1' = ft_files s" "ft_file_counter ?s1' = ft_file_counter s"
        "ft_processed_count ?s1' = ft_processed_count s" "ft_error_count ?s1' = ft_error_count s"
        "ft_dlq ?s1' = ft_dlq s" "ft_enable_dlq ?s1' = ft_enable_dlq s" "ft_env ?s1' = ft_env s"
        "ft_dlq_calls ?s1' = ft_dlq_calls s" "ft_calls ?s1' = Suc (ft_calls s)"
        "ft_max_retries ?s1' = ft_max_retries s"
        using p Some by simp_all
      have m: "nat (ft_max_retries s - r) + 1 = Suc (nat (ft_max_retries s - (r + 1)) + 1)"
        using True p by simp
      have fs: "first_success (attempt_ok batch (ft_env s)) (ft_calls s) (nat (ft_max_retries s - r) + 1) =
                first_success (attempt_ok batch (ft_env ?s1')) (ft_calls ?s1') (nat (ft_max_retries ?s1' - (r + 1)) + 1)"
        unfolding m first_success_Suc using nok same by simp
      note ih = "1.IH" [OF pb [symmetric] Some True]
      show ?thesis
      proof (cases "first_success (attempt_ok batch (ft_env s)) (ft_calls s) (nat (ft_max_retries s - r) + 1)")
        case None
        then have f: "ft_failed batch ?s1' (ft_retry batch (r + 1) ?s1')"
          and c: "ft_calls (ft_retry batch (r + 1) ?s1') = ft_calls ?s1' + nat (ft_max_retries ?s1' - (r + 1)) + 1"
          using ih fs by simp_all
        from f have "ft_failed batch s (ft_retry batch r s)" unfolding eq ft_failed_def same .
        then show ?thesis using None c m same unfolding eq by simp
      next
        case (Some k)
        then have fs': "first_success (attempt_ok batch (ft_env ?s1')) (ft_calls ?s1')
                          (nat (ft_max_retries ?s1' - (r + 1)) + 1) = Some k"
          using fs by simp
        from ih have w: "ft_written batch ?s1' (ft_retry batch (r + 1) ?s1')"
          and c: "ft_calls (ft_retry batch (r + 1) ?s1') = Suc k"
          unfolding fs' by simp_all
        from w have "ft_written batch s (ft_retry batch r s)" unfolding eq ft_written_def same .
        then show ?thesis using Some c unfolding eq by simp
      qed
    next
      case False
      then have "nat (ft_max_retries s - r) + 1 = 1" using p by simp
      then have "first_success (attempt_ok batch (ft_env s)) (ft_calls s) (nat (ft_max_retries s - r) + 1) = None"
        using nok by (simp add: first_success_def)
      then show ?thesis using False pb Some p
        by (auto simp: ft_retry_give_up ft_failed_def ft_send_to_dlq_def Let_def)
    qed
  qed
qed

end
