(* ===== verification/Bus_Properties.thy ===== *)
theory Bus_Properties
  imports Main_Example Batch_Json_Main Fault_Tolerant_Main
begin

text \<open>
  Properties of the buses the scripts build, in every state the concurrent
  system \<open>dstep\<close> can reach with the scripts' consumers: what the error
  handler of \<open>fault_tolerant_example.py\<close> ever receives, that every
  \<open>produce\<close> call of \<open>main.py\<close>'s loop returns, and what the barrier formula of
  the spec does to a bus whose ring has a single slot.
\<close>

section \<open>Steps that leave the error handler alone\<close>

lemma handled_dstep:
  assumes inv: "dinv d" and st: "dstep ops d d'"
    and quiet: "\<forall>s b s' e. consume_op ops s b = Some (s', e) \<longrightarrow> e = None"
  shows "handled d' = handled d"
  using st
proof cases
  case (step_register c)
  then show ?thesis by (auto simp: register_consumer_def split: if_splits)
next
  case (step_produce xs)
  then show ?thesis by (auto simp: produce_def split: if_splits prod.splits)
next
  case (step_work i)
  from inv this show ?thesis
  proof (rule worker_step_SomeE)
    fix st err
    assume "consume_op ops (cstates d ! i) (drop (nat (ccur d ! i + 1)) (published d)) = Some (st, err)"
      and d': "d' = d\<lparr>cstates := (cstates d)[i := st],
            curs := consumer_advance i (pcur d) (curs d),
            handled := handled d @ (case err of None \<Rightarrow> [] | Some e \<Rightarrow>
                         [(i, drop (nat (ccur d ! i + 1)) (published d), e)]),
            delivered := (delivered d)[i := delivered d ! i @ drop (nat (ccur d ! i + 1)) (published d)]\<rparr>"
    then have "err = None" using quiet by blast
    then show "handled d' = handled d" using d' by simp
  qed
next
  case step_close
  then show ?thesis by (simp add: close_def)
next
  case step_finish
  then show ?thesis by (auto simp: finish_def split: if_splits)
qed

lemma ft_consume_quiet: "ft_consume s b = Some (s', e) \<Longrightarrow> e = None"
  by (auto simp: ft_consume_def)

text \<open>
  C13: On the bus of \<open>fault_tolerant_example.py\<close> the error handler is never
  called: in every reachable state the list of handler calls is empty, because
  \<open>FaultTolerantBatchConsumer.consume\<close> never raises.  \<open>custom_error_handler\<close>,
  which \<open>main()\<close> passes to the \<open>Disruptor\<close>, is dead code.
\<close>

theorem ft_bus_handler_unused: "reachable ft_ops d \<Longrightarrow> handled d = []"
proof (induction rule: reachable.induct)
  case (init nm sz d)
  then show ?case by (auto simp: disruptor_new_def split: if_splits)
next
  case (step d d')
  have "handled d' = handled d"
    using handled_dstep [OF reachable_dinv [OF step.hyps(1)] step.hyps(2)] ft_consume_quiet
    by (auto simp: ft_ops_def)
  then show ?case using step.IH by simp
qed

text \<open>A bus of size 4 with one fault-tolerant consumer that has been given one object.\<close>

abbreviation ft_bus0 :: "(int, int ft_state, exn) disruptor" where
  "ft_bus0 \<equiv> \<lparr>name = ''FaultTolerantExample'', ring = rb_new 4, curs = cs_new, phase = New,
               cstates = [], close_calls = [], handled = [], published = [], delivered = []\<rparr>"

theorem ft_bus_handler_unused_witness:
  "handled (projr (the (produce [7] (projr (register_consumer (ft_demo ft_ok_world 100) ft_bus0))))) = []"
proof -
  have r0: "reachable ft_ops ft_bus0"
    by (rule reachable.init [of "''FaultTolerantExample''" 4]) (simp add: disruptor_new_def)
  have "register_consumer (ft_demo ft_ok_world 100) ft_bus0 =
        Inr (projr (register_consumer (ft_demo ft_ok_world 100) ft_bus0))"
    by (simp add: register_consumer_def)
  then have r1: "reachable ft_ops (projr (register_consumer (ft_demo ft_ok_world 100) ft_bus0))"
    using r0 by (blast intro: reachable.step step_register)
  have "produce [7] (projr (register_consumer (ft_demo ft_ok_world 100) ft_bus0)) =
        Some (Inr (projr (the (produce [7] (projr (register_consumer (ft_demo ft_ok_world 100) ft_bus0))))))"
    by (simp add: register_consumer_def produce_def can_claim_def gating_def claim_def cs_add_consumer_def
                  cs_new_def rb_new_def)
  then have "reachable ft_ops (projr (the (produce [7] (projr (register_consumer (ft_demo ft_ok_world 100) ft_bus0)))))"
    using r1 by (blast intro: reachable.step step_produce)
  then show ?thesis by (rule ft_bus_handler_unused)
qed

section \<open>Progress of main.py's producer\<close>

text \<open>
  C5: Liveness of the produce loop of \<open>main.py\<close>: from every reachable state
  of its bus that still accepts publications and whose ring has more than one
  slot, the blocking \<open>produce([i])\<close> returns after steps of the concurrent
  system (the workers catch up, then the claim passes the barrier), and \<open>i\<close>
  is published.
\<close>

theorem main_bus_produce_returns:
  assumes "reachable my_ops d" "phase d = New \<or> phase d = Running" "1 < capacity (ring d)"
  shows "\<exists>d'. produce_blocking my_ops [x] d = Some (Inr d') \<and> (dstep my_ops)\<^sup>*\<^sup>* d d' \<and>
              published d' = published d @ [x]"
proof -
  have ok: "states_ok (\<lambda>_. True) d" by (simp add: states_ok_def)
  have ne: "[x] \<noteq> []" and small: "length [x] < capacity (ring d)" using assms(3) by simp_all
  from produce_blocking_run [OF reachable_dinv [OF assms(1)] my_ops_return ok assms(2) ne small]
  show ?thesis by blast
qed

abbreviation main_bus0 :: "(int, int my_consumer, unit) disruptor" where
  "main_bus0 \<equiv> \<lparr>name = ''Example'', ring = rb_new 4, curs = cs_new, phase = New,
                cstates = [], close_calls = [], handled = [], published = [], delivered = []\<rparr>"

theorem main_bus_produce_returns_witness:
  "\<exists>d'. produce_blocking my_ops [0 :: int]
          (projr (register_consumer (my_consumer_new ''Consumer One'') main_bus0)) = Some (Inr d') \<and>
        published d' = [0]"
proof -
  have r0: "reachable my_ops main_bus0"
    by (rule reachable.init [of "''Example''" 4]) (simp add: disruptor_new_def)
  have "register_consumer (my_consumer_new ''Consumer One'') main_bus0 =
        Inr (projr (register_consumer (my_consumer_new ''Consumer One'') main_bus0))"
    by (simp add: register_consumer_def)
  then have r1: "reachable my_ops (projr (register_consumer (my_consumer_new ''Consumer One'') main_bus0))"
    using r0 by (blast intro: reachable.step step_register)
  have "phase (projr (register_consumer (my_consumer_new ''Consumer One'') main_bus0)) = New"
    "1 < capacity (ring (projr (register_consumer (my_consumer_new ''Consumer One'') main_bus0)))"
    by (simp_all add: register_consumer_def rb_new_def)
  from main_bus_produce_returns [OF r1 _ this(2), of 0] this(1)
  obtain d' where "produce_blocking my_ops [0 :: int]
          (projr (register_consumer (my_consumer_new ''Consumer One'') main_bus0)) = Some (Inr d')"
    "published d' = published (projr (register_consumer (my_consumer_new ''Consumer One'') main_bus0)) @ [0]"
    by blast
  then show ?thesis by (intro exI [of _ d']) (simp add: register_consumer_def)
qed

section \<open>A ring of one slot\<close>

text \<open>
  C4: With the barrier formula of the spec (\<open>s - capacity < gating\<close>), the
  \<open>main()\<close> of any of the scripts, run with \<open>Disruptor(size=1)\<close> and at least
  one consumer, never returns: its first \<open>produce\<close> waits for ever, since
  even after every worker has caught up a single slot admits no claim.  The
  spec's invariant 2 (\<open>producer - gating \<le> capacity\<close>) and scenario S3 allow
  \<open>capacity\<close> outstanding items; the formula allows \<open>capacity - 1\<close>.
\<close>

theorem script_main_size_one_hangs:
  fixes cs :: "'c list" and ops :: "('c, 'a, 'e) consumer" and x :: 'a
  assumes "cs \<noteq> []"
  shows "script_main nm 1 cs ops (x # xs) = None"
proof -
  define d0 :: "('a, 'c, 'e) disruptor" where
    "d0 = \<lparr>name = nm, ring = rb_new 1, curs = cs_new, phase = New,
           cstates = [], close_calls = [], handled = [], published = [], delivered = []\<rparr>"
  have n0: "disruptor_new nm 1 = Inr d0" by (simp add: disruptor_new_def d0_def)
  have inv0: "dinv d0" by (rule dinv_new [OF n0])
  have "states_ok (\<lambda>_. True) d0" "phase d0 = New" by (simp_all add: d0_def states_ok_def)
  then obtain d1 where r1: "register_all cs d0 = Inr d1" and inv1: "dinv d1"
    and f1: "phase d1 = New" "length (ccur d1) = length cs" "capacity (ring d1) = 1"
    using register_all_run [OF inv0, of "\<lambda>_. True" cs] by (auto simp: d0_def cs_new_def rb_new_def)
  have ne: "ccur d1 \<noteq> []" using f1(2) assms by auto
  have p1: "produce [x] d1 = None"
    using produce_blocked_full [OF inv1 ne] f1 by simp
  note w = work_round_keeps [OF inv1, of ops]
  have p2: "produce [x] (work_round ops d1) = None"
  proof (rule produce_blocked_full [OF conjunct1 [OF w]])
    show "ccur (work_round ops d1) \<noteq> []" using w f1(2) assms by auto
  qed (use w f1 in simp_all)
  show ?thesis by (simp add: script_main_def n0 r1 produce_blocking_def p1 p2)
qed

theorem script_main_size_one_hangs_witness:
  "script_main ''Example'' 1 [my_consumer_new ''Consumer One''] (my_ops :: (int my_consumer, int, unit) consumer)
     [0, 1, 2] = None"
  using script_main_size_one_hangs [of "[my_consumer_new ''Consumer One'']" "''Example''" my_ops 0 "[1, 2]"]
  by simp

end
