(* ===== verification/Benchmark.thy ===== *)
theory Benchmark
  imports Complex_Main
begin

text \<open>
  The decorator \<open>measure_performance\<close> of \<open>src/benchmark.py\<close>, which all
  three scripts put on their \<open>main()\<close>.  The wrapper reads the resident
  memory of the process, reads the wall clock with \<open>time()\<close>, runs the
  function, reads the clock again with \<open>timer()\<close> (\<open>timeit.default_timer\<close>,
  that is \<open>time.perf_counter\<close>), reads the memory again, prints the elapsed
  time and the memory used, and returns the function's result.

  The readings the wrapper takes from the system are an input
  (\<open>perf_sample\<close>).  Both clocks count seconds of one physical time line
  but from different origins: \<open>time()\<close> from the Unix epoch, \<open>perf_counter()\<close>
  from an unspecified point.  \<open>clock_readings\<close> produces the two readings the
  wrapper takes for a call that starts at physical time \<open>t0\<close> and ends at
  \<open>t1\<close>, given the origins of the two clocks.  The print statement's text is
  not modelled; the two numbers it prints are.
\<close>

record perf_sample =
  rss_before :: nat
  wall_start :: real
  perf_end :: real
  rss_after :: nat

definition measure_performance :: "('a \<Rightarrow> 'b) \<Rightarrow> perf_sample \<Rightarrow> 'a \<Rightarrow> 'b \<times> real \<times> real" where
  "measure_performance func smp args =
     (let mem_before = real (rss_before smp) / 1024 ^ 2;
          start = wall_start smp;
          result = func args;
          end_time = perf_end smp;
          elapsed_time = end_time - start;
          mem_after = real (rss_after smp) / 1024 ^ 2;
          mem_used = mem_after - mem_before
      in (result, elapsed_time, mem_used))"

definition clock_readings :: "real \<Rightarrow> real \<Rightarrow> real \<Rightarrow> real \<Rightarrow> nat \<Rightarrow> nat \<Rightarrow> perf_sample" where
  "clock_readings wall_origin perf_origin t0 t1 r0 r1 =
     \<lparr>rss_before = r0, wall_start = t0 - wall_origin, perf_end = t1 - perf_origin, rss_after = r1\<rparr>"

section \<open>What the wrapper reports\<close>

text \<open>
  C20: The reported \<open>elapsed_time\<close> is the duration of the call plus the
  difference of the two clocks' origins, so it is the duration of the call
  exactly when the origins coincide; since \<open>time()\<close> counts from 1970 and
  \<open>perf_counter()\<close> from an arbitrary point (typically the boot of the
  machine), the printed time is off by that difference.  The wrapper returns
  the function's result unchanged, and the memory it reports is the growth of
  the resident set in MiB.
\<close>

theorem measure_performance_reports:
  "measure_performance func (clock_readings wo po t0 t1 r0 r1) args =
     (func args, (t1 - t0) + (wo - po), (real r1 - real r0) / 1024 ^ 2) \<and>
   (fst (snd (measure_performance func (clock_readings wo po t0 t1 r0 r1) args)) = t1 - t0 \<longleftrightarrow> wo = po)"
  by (simp add: measure_performance_def clock_readings_def Let_def diff_divide_distrib)

text \<open>A call of 2.5 s made 1.7e9 s after the epoch, on a machine whose \<open>perf_counter()\<close> started 1.7e9 - 3600 s after the epoch, reports -1.7e9 + 3602.5 s.\<close>

theorem measure_performance_reports_witness:
  "fst (snd (measure_performance (\<lambda>x::nat. x) (clock_readings 0 (1700000000 - 3600) 1700000000 1700000002.5 0 0) 7))
     = - 1700000000 + 3602.5"
  using measure_performance_reports [of "\<lambda>x::nat. x" 0 "1700000000 - 3600" 1700000000 "1700000002.5" 0 0 7]
  by simp

end
