(* ===== verification/Json_Gen.thy ===== *)
theory Json_Gen
  imports Complex_Main
begin

text \<open>
  \<open>generate_complex_json()\<close> of \<open>src/batch_json_example.py\<close> and the
  flattening \<open>_process_batch\<close> applies to its objects.  The function is a
  dictionary literal whose leaves are calls of the \<open>random\<close> module and one
  reading of the clock.  Python evaluates the literal from left to right, so
  the draws come in source order; the model takes them as a record
  (\<open>json_draws\<close>, one field per call, in that order) and builds the object.  A
  \<open>random.choice(seq)\<close> draw is the index of the element chosen,
  \<open>random.sample(seq, k)\<close> the list of the \<open>k\<close> indices chosen, and
  \<open>round(random.uniform(a, b), 2)\<close> the rounded number; the clock reading is
  the number of days since an epoch and \<open>isoformat\<close> is a parameter.  The
  number of \<open>items\<close> (\<open>random.randint(1, 5)\<close>) is the length of the list of
  item draws.

  \<open>pl.from_dicts\<close> makes one column per key and \<open>DataFrame.unnest\<close> replaces a
  struct column by its fields in place, raising when the column is missing,
  is not a struct, or a field name is already a column; \<open>unnest_row\<close> is that
  behaviour on the keys of one row (the Polars library is not part of the
  repository and is modelled from its documentation).
\<close>

datatype json = J_Int int | J_Float real | J_Str string | J_Bool bool
  | J_List "json list" | J_Obj "(string \<times> json) list"

function nat_str :: "nat \<Rightarrow> string" where
  "nat_str n = (if n < 10 then [char_of (48 + n)] else nat_str (n div 10) @ [char_of (48 + n mod 10)])"
  by pat_completeness auto
termination by (relation "measure id") auto

definition int_str :: "int \<Rightarrow> string" where
  "int_str i = (if i < 0 then CHR ''-'' # nat_str (nat (- i)) else nat_str (nat i))"

record item_draw =
  g_product_no :: int
  g_item_name :: nat
  g_quantity :: int
  g_price :: real

record json_draws =
  g_id :: int
  g_days :: int
  g_user_no :: int
  g_name :: nat
  g_email_no :: int
  g_age :: int
  g_premium :: nat
  g_theme :: nat
  g_language :: nat
  g_notifications :: nat
  g_amount :: real
  g_currency :: nat
  g_status :: nat
  g_payment :: nat
  g_items :: "item_draw list"
  g_ip :: "int \<times> int \<times> int \<times> int"
  g_user_agent :: nat
  g_session :: int
  g_referrer :: nat
  g_device :: nat
  g_page_views :: int
  g_time_on_site :: int
  g_bounce :: real
  g_conversion :: nat
  g_tags :: "nat list"

definition gen_item :: "item_draw \<Rightarrow> json" where
  "gen_item d = J_Obj
     [(''product_id'', J_Str (''prod_'' @ int_str (g_product_no d))),
      (''name'', J_Str ([''Widget'', ''Gadget'', ''Tool'', ''Device'', ''Accessory''] ! g_item_name d)),
      (''quantity'', J_Int (g_quantity d)),
      (''price'', J_Float (g_price d))]"

definition generate_complex_json :: "(int \<Rightarrow> string) \<Rightarrow> int \<Rightarrow> json_draws \<Rightarrow> json" where
  "generate_complex_json isoformat now d = J_Obj
     [(''id'', J_Int (g_id d)),
      (''timestamp'', J_Str (isoformat (now - g_days d))),
      (''user'', J_Obj
         [(''user_id'', J_Str (''user_'' @ int_str (g_user_no d))),
          (''name'', J_Str ([''Alice'', ''Bob'', ''Charlie'', ''Diana'', ''Eve'', ''Frank'', ''Grace'', ''Henry''] ! g_name d)),
          (''email'', J_Str (''user'' @ int_str (g_email_no d) @ ''@example.com'')),
          (''age'', J_Int (g_age d)),
          (''premium'', J_Bool ([True, False] ! g_premium d)),
          (''preferences'', J_Obj
             [(''theme'', J_Str ([''dark'', ''light'', ''auto''] ! g_theme d)),
              (''language'', J_Str ([''en'', ''es'', ''fr'', ''de'', ''ja'', ''zh''] ! g_language d)),
              (''notifications'', J_Bool ([True, False] ! g_notifications d))])]),
      (''transaction'', J_Obj
         [(''amount'', J_Float (g_amount d)),
          (''currency'', J_Str ([''USD'', ''EUR'', ''GBP'', ''JPY'', ''CNY''] ! g_currency d)),
          (''status'', J_Str ([''pending'', ''completed'', ''failed'', ''refunded''] ! g_status d)),
          (''payment_method'', J_Str ([''credit_card'', ''debit_card'', ''paypal'', ''crypto'', ''bank_transfer''] ! g_payment d)),
          (''items'', J_List (map gen_item (g_items d)))]),
      (''metadata'', J_Obj
         [(''ip_address'', J_Str (case g_ip d of (a, b, c, e) \<Rightarrow>
             int_str a @ ''.'' @ int_str b @ ''.'' @ int_str c @ ''.'' @ int_str e)),
          (''user_agent'', J_Str ([''Mozilla/5.0 (Windows NT 10.0; Win64; x64)'',
              ''Mozilla/5.0 (Macintosh; Intel Mac OS X 10_15_7)'', ''Mozilla/5.0 (X11; Linux x86_64)'',
              ''Mozilla/5.0 (iPhone; CPU iPhone OS 14_6 like Mac OS X)''] ! g_user_agent d)),
          (''session_id'', J_Str (''sess_'' @ int_str (g_session d))),
          (''referrer'', J_Str ([''google.com'', ''facebook.com'', ''twitter.com'', ''direct'', ''email''] ! g_referrer d)),
          (''device_type'', J_Str ([''desktop'', ''mobile'', ''tablet''] ! g_device d))]),
      (''analytics'', J_Obj
         [(''page_views'', J_Int (g_page_views d)),
          (''time_on_site'', J_Int (g_time_on_site d)),
          (''bounce_rate'', J_Float (g_bounce d)),
          (''conversion'', J_Bool ([True, False] ! g_conversion d)),
          (''tags'', J_List (map (\<lambda>i. J_Str ([''electronics'', ''fashion'', ''home'', ''sports'', ''books'', ''toys'', ''food''] ! i)) (g_tags d)))])]"

text \<open>\<open>DataFrame.unnest(col)\<close> on the keys of one row.\<close>

definition unnest_row :: "string \<Rightarrow> (string \<times> json) list \<Rightarrow> (string \<times> json) list option" where
  "unnest_row col row =
     (case map_of row col of
        Some (J_Obj fs) \<Rightarrow>
          (let row' = concat (map (\<lambda>(k, v). if k = col then fs else [(k, v)]) row) in
           if distinct (map fst row') then Some row' else None)
      | _ \<Rightarrow> None)"

text \<open>\<open>pl.from_dicts(batch)\<close> followed by the four \<open>unnest\<close> calls of \<open>_process_batch\<close>, on one row.\<close>

definition flatten_row :: "json \<Rightarrow> (string \<times> json) list option" where
  "flatten_row j =
     (case j of
        J_Obj row \<Rightarrow>
          if distinct (map fst row) then
            Option.bind (unnest_row ''user'' row) (\<lambda>r1.
            Option.bind (unnest_row ''transaction'' r1) (\<lambda>r2.
            Option.bind (unnest_row ''metadata'' r2) (\<lambda>r3.
            unnest_row ''analytics'' r3)))
          else None
      | _ \<Rightarrow> None)"

section \<open>The flattened row\<close>

text \<open>
  Whatever the draws, the object \<open>generate_complex_json()\<close> returns
  survives the flattening of \<open>_process_batch\<close>: \<open>pl.from_dicts\<close> sees distinct
  keys, the four sections are structs, and unnesting them raises no duplicate
  column; the row has the 23 columns below in this order (\<open>preferences\<close>
  stays a struct, \<open>items\<close> and \<open>tags\<close> stay lists), and the \<open>amount\<close> that
  \<open>total_amount\<close> sums is the drawn transaction amount.
\<close>

lemma generate_complex_json_flattens:
  "\<exists>row. flatten_row (generate_complex_json isoformat now d) = Some row \<and>
     map fst row = [''id'', ''timestamp'', ''user_id'', ''name'', ''email'', ''age'', ''premium'',
       ''preferences'', ''amount'', ''currency'', ''status'', ''payment_method'', ''items'',
       ''ip_address'', ''user_agent'', ''session_id'', ''referrer'', ''device_type'',
       ''page_views'', ''time_on_site'', ''bounce_rate'', ''conversion'', ''tags''] \<and>
     map_of row ''amount'' = Some (J_Float (g_amount d))"
  by (simp add: flatten_row_def generate_complex_json_def unnest_row_def)

end
