(* ===== verification/Spec2Isabelle.thy ===== *)
theory Spec2Isabelle
  imports Main_Example Batch_Json_Main Fault_Tolerant_Main Fault_Tolerant_Spec Bus_Properties
    Benchmark Json_Gen
begin

text \<open>
  Verification development of the python-disruptor example repository.

  \<^bold>\<open>The program.\<close>  Three scripts, \<open>src/main.py\<close>,
  \<open>src/batch_json_example.py\<close> and \<open>src/fault_tolerant_example.py\<close>, each
  build a \<open>Disruptor\<close> (an in-process broadcast bus over a ring buffer, from
  the \<open>disruptor\<close> package), register consumers, produce items one
  \<open>produce([x])\<close> call at a time, and close the bus in a \<open>finally\<close> clause.
  Their \<open>main()\<close> is wrapped by \<open>measure_performance\<close> of
  \<open>src/benchmark.py\<close>.  The bus runs one worker thread per consumer; each
  worker hands the consumer the items published since its cursor
  (\<open>consume\<close>), and \<open>close\<close> stops the workers and calls each consumer's
  \<open>close\<close>.

  \<^bold>\<open>The bus (spec-modelled: the package is not in the repository).\<close>
  \<open>Prelude\<close>: the shared types (\<open>io\<close>, the outcome of one call to the outside
  world; \<open>exn\<close>, the exceptions the consumers raise), Python slicing (\<open>py_take\<close>, \<open>py_drop\<close>) and the
  chunking reference \<open>full_chunks\<close>/\<open>chunks_rest\<close>.  \<open>RingBuffer\<close>: the
  slots and \<open>capacity\<close>.  \<open>Cursors\<close>: the producer cursor and one cursor per
  consumer, \<open>gating\<close> the least.  \<open>Disruptor\<close>: the bus state record
  \<open>disruptor\<close> (phase, ring, cursors, consumer states, what each consumer was
  delivered, the error handler's calls), the errors of the bus
  (\<open>error\<close>), the operations \<open>disruptor_new\<close>,
  \<open>register_consumer\<close>, \<open>produce\<close> (claim, publish; \<open>None\<close> when it must wait),
  \<open>worker_step\<close>, \<open>close\<close>, \<open>finish\<close>; the interleaving of the threads is the
  inductive step relation \<open>dstep\<close> and \<open>reachable\<close> its reachable states.
  \<open>Disruptor_Invariants\<close>: the invariant \<open>dinv\<close> (cursors ordered below the
  producer, no consumer overwritten, deliveries are slices of what was
  published) and \<open>reachable_dinv\<close>, by rule induction.
  \<open>Disruptor_Schedule\<close>: a deterministic schedule for a blocking call
  (\<open>work_round\<close>: every worker catches up once; \<open>produce_blocking\<close>: try,
  let the workers run, retry; \<open>close_blocking\<close>), each run shown to be a
  sequence of \<open>dstep\<close>s.  The schedule is enough: after one round every
  consumer has caught up, so the retry of a \<open>produce\<close> of fewer items than
  the capacity succeeds; with a ring of one slot it never does.

  \<^bold>\<open>The consumer interface.\<close>  \<open>Consumer_Interface\<close>: a consumer is a
  pair of callbacks (\<open>consumer\<close>); \<open>callbacks_return\<close> says its \<open>consume\<close>
  returns from the states of an invariant, \<open>consumer_tracks\<close> that an
  abstraction of its state grows by exactly what it consumes and that
  \<open>close\<close> keeps it.  \<open>script_main\<close> is the common shape of the three
  \<open>main()\<close>s (new bus, register, produce each item, close) and
  \<open>script_main_run\<close> proves, for any consumer meeting the interface, that it
  returns, closes every consumer once, and that each tracked consumer ends
  having accounted for every produced item in order.  Each script's theory
  discharges the interface for its consumer and instantiates the lemma.

  \<^bold>\<open>The scripts (modelled from the source).\<close>
  \<open>Main_Example\<close>: \<open>MyConsumer\<close> and \<open>main()\<close> of \<open>main.py\<close> (\<open>main_run n\<close>
  produces \<open>0 .. n-1\<close>; the script uses \<open>n = 10 000\<close>).
  \<open>Batch_Json\<close>: \<open>BatchJsonConsumer\<close> (\<open>bj_state\<close>, \<open>bj_consume\<close> with its
  batching loop \<open>bj_drain\<close>, \<open>bj_process_batch\<close>, \<open>bj_close\<close>); the loop is a
  \<open>partial_function (option)\<close> because \<open>batch_size\<close> is unchecked, and its
  termination is a theorem.  \<open>Batch_Json_Main\<close>: its \<open>main()\<close>.
  \<open>Json_Gen\<close>: \<open>generate_complex_json()\<close> as a function of its random draws,
  and the \<open>unnest\<close> chain of \<open>_process_batch\<close> on one row.
  \<open>Fault_Tolerant\<close>: \<open>FaultTolerantBatchConsumer\<close> (\<open>ft_state\<close>, checkpoint
  load and save, \<open>ft_process_batch\<close>, the retry recursion \<open>ft_retry\<close> with a
  measure on the remaining retries, the dead-letter queue, \<open>ft_consume\<close>,
  \<open>ft_close\<close>).  \<open>Fault_Tolerant_Spec\<close>: the bounded-retry specification
  \<open>first_success\<close> that \<open>ft_retry\<close> refines.
  \<open>Fault_Tolerant_Main\<close>: its \<open>main()\<close>.  \<open>Benchmark\<close>: the decorator.
  \<open>Bus_Properties\<close>: properties of the scripts' buses over all reachable
  states (the fault-tolerant bus never calls its error handler; \<open>main.py\<close>'s
  \<open>produce\<close> always returns on a ring of more than one slot; no script's
  \<open>main()\<close> returns on a ring of one slot).

  \<^bold>\<open>The outside world.\<close>  Writes of Parquet and JSON files, the DataFrame
  conversion and the simulated failures are the answers of a world oracle
  (\<open>nat \<Rightarrow> io\<close>, indexed by the number of calls made so far), a field of
  each consumer's state; a file system is the list of files written.  The
  theorems quantify over every world.

  \<^bold>\<open>Fuel and bounds.\<close>  No fuel is used: loops are either structural,
  \<open>function\<close>s with a measure (\<open>ft_retry\<close>: \<open>max_retries - retry_count\<close>),
  or \<open>partial_function (option)\<close> with a theorem that they return
  (\<open>bj_drain\<close>, \<open>ft_drain\<close>) or a theorem on when they do not (a batch size
  of zero or less).  Counters are Python integers (\<open>int\<close>); no value of the
  scripts is a machine word.

  \<^bold>\<open>Not modelled.\<close>  Printing and logging; \<open>time.sleep\<close>: the scripts'
  sleeps only give the worker threads time and do not change what is
  written, and the back-off sleep of \<open>_process_batch_with_retry\<close> is assumed
  to return (a non-negative \<open>retry_delay\<close>; the scripts use 0.5); Python's
  recursion limit on the retries; collisions of DLQ file names; the contents
  of Parquet files beyond their rows; directory creation; the \<open>print\<close> of
  the decorator; the statistics (\<open>total_amount\<close>) that are only printed;
  and checkpoint counters that are not integers (a float, string or
  \<open>null\<close> counter would be loaded unchecked; the model represents only the
  integer ones, and a bool as the integer it is in Python).

  \<^bold>\<open>Spec-modelled parts.\<close>  \<open>can_claim\<close> applies the spec's barrier formula
  \<open>s - capacity < gating\<close> literally (section 4.3), which is stricter by one
  than its own "equivalently" clause and invariant 2; the blocking calls
  use one deterministic schedule (one round of workers, then one retry), so
  their \<^term>\<open>None\<close> means blocked even after every consumer caught up.

  This theory proves the property that spans the generator, the batch
  consumer and the bus: generated objects reach the Parquet files of every
  consumer whose writes succeed, and every row converts.
\<close>

section \<open>Generated objects through the batch consumer\<close>

text \<open>One draw of \<open>generate_complex_json()\<close>, with one item and two tags.\<close>

abbreviation demo_draws :: json_draws where
  "demo_draws \<equiv> \<lparr>g_id = 4242, g_days = 3, g_user_no = 17, g_name = 1, g_email_no = 17, g_age = 30,
     g_premium = 0, g_theme = 2, g_language = 0, g_notifications = 1, g_amount = 99.5,
     g_currency = 1, g_status = 1, g_payment = 2,
     g_items = [\<lparr>g_product_no = 123, g_item_name = 0, g_quantity = 2, g_price = 49.75\<rparr>],
     g_ip = (10, 0, 0, 1), g_user_agent = 2, g_session = 123456, g_referrer = 3, g_device = 1,
     g_page_views = 5, g_time_on_site = 60, g_bounce = 0.25, g_conversion = 0, g_tags = [0, 4]\<rparr>"

text \<open>
  C12: \<open>main()\<close> of \<open>batch_json_example.py\<close>, fed with objects of
  \<open>generate_complex_json()\<close> as the script does, each object from its own
  draws and its own reading of the clock: every consumer whose writes
  all succeed writes Parquet files holding exactly the generated objects, in
  order, and every row of every file it writes goes through the
  \<open>unnest\<close> chain of \<open>_process_batch\<close> without error, with distinct column
  names among which \<open>amount\<close>, so the DataFrame conversion of a batch never
  raises and \<open>total_amount\<close> is computed from the column.
\<close>

theorem batch_json_generated_rows:
  "\<exists>d. bj_main_run (map (\<lambda>(now, g). generate_complex_json isoformat now g) ds) w1 w2 = Some (Inr d) \<and>
     (\<forall>j < 2. (\<forall>k. ([w1, w2] ! j) k = Io_Ok) \<longrightarrow>
        concat (map snd (bj_files (cstates d ! j))) = map (\<lambda>(now, g). generate_complex_json isoformat now g) ds \<and>
        (\<forall>f \<in> set (bj_files (cstates d ! j)). \<forall>obj \<in> set (snd f).
           \<exists>row. flatten_row obj = Some row \<and> distinct (map fst row) \<and> ''amount'' \<in> set (map fst row)))"
proof -
  obtain d where d: "bj_main_run (map (\<lambda>(now, g). generate_complex_json isoformat now g) ds) w1 w2 = Some (Inr d)"
    and each: "\<forall>j < 2. (\<forall>k. ([w1, w2] ! j) k = Io_Ok) \<longrightarrow>
        concat (map snd (bj_files (cstates d ! j))) = map (\<lambda>(now, g). generate_complex_json isoformat now g) ds"
    using bj_main_run_closed [of "map (\<lambda>(now, g). generate_complex_json isoformat now g) ds" w1 w2] by blast
  have rows: "\<exists>row. flatten_row obj = Some row \<and> distinct (map fst row) \<and> ''amount'' \<in> set (map fst row)"
    if "obj \<in> set (map (\<lambda>(now, g). generate_complex_json isoformat now g) ds)" for obj
  proof -
    from that obtain now g where "obj = generate_complex_json isoformat now g" by auto
    then show ?thesis using generate_complex_json_flattens [of isoformat now g] by auto
  qed
  have "\<forall>f \<in> set (bj_files (cstates d ! j)). \<forall>obj \<in> set (snd f). obj \<in> set (concat (map snd (bj_files (cstates d ! j))))"
    for j by auto
  then show ?thesis using d each rows by metis
qed

theorem batch_json_generated_rows_witness:
  "\<exists>d. bj_main_run (map (\<lambda>(now, g). generate_complex_json (\<lambda>_. ''2025-01-01T00:00:00'') now g) [(0, demo_draws)])
       (\<lambda>_. Io_Ok) (\<lambda>_. Io_Ok) =
       Some (Inr d) \<and>
     concat (map snd (bj_files (cstates d ! 0))) = map (\<lambda>(now, g). generate_complex_json (\<lambda>_. ''2025-01-01T00:00:00'') now g) [(0, demo_draws)] \<and>
     (\<forall>f \<in> set (bj_files (cstates d ! 0)). \<forall>obj \<in> set (snd f).
        \<exists>row. flatten_row obj = Some row \<and> distinct (map fst row) \<and> ''amount'' \<in> set (map fst row))"
  using batch_json_generated_rows [of "\<lambda>_. ''2025-01-01T00:00:00''" "[(0, demo_draws)]" "\<lambda>_. Io_Ok" "\<lambda>_. Io_Ok"]
  by (elim exE conjE) (intro exI conjI, assumption, (drule spec [of _ 0], simp)+)

end
